theory Spec2Isabelle
  imports Complex_Main "HOL-Library.Product_Lexorder"
begin

section \<open>The multilateration tracker (mlat/mlattrack.py)\<close>

text \<open>
  Conventions of the embedding.
  \<^item> Python floats (timestamps, wall-clock times, distances, variances) are read as
    real numbers; the comparisons and the arithmetic of the source are kept as written.
  \<^item> A receiver is a Python object compared by identity (\<open>is\<close>) and used as a dictionary
    key and set element; it is modelled as a reference (a natural number), and its
    attributes are read through a table of receiver objects.
  \<^item> Message groups and cohorts are mutable objects reachable from several places
    (the pending map, a cohort's group list, the timer of the event loop); they live
    in explicit heaps indexed by references.
  \<^item> An exception of the source is a value of type \<open>error\<close>; a call of a method
    either returns or raises, and in both cases the mutations made so far persist.
\<close>

subsection \<open>Data model\<close>

datatype error = KeyError | IndexError | TypeError | ValueError | ZeroDivisionError

datatype 'a outcome = Returned 'a | Raised error 'a

fun state_of :: "'a outcome \<Rightarrow> 'a" where
  "state_of (Returned s) = s"
| "state_of (Raised e s) = s"

type_synonym receiver = nat
type_synonym message = string

text \<open>An observation \<open>(receiver, timestamp, now)\<close> as appended to \<open>group.copies\<close>.\<close>
type_synonym copy = "receiver \<times> real \<times> real"

record MessageGroup =
  message :: message
  first_seen :: real
  copies :: "copy list"
  receivers :: "receiver set"

record Cohort =
  creationTime :: real
  len :: int
  groups :: "nat list"

text \<open>
  The configuration module and the constants module are not part of this file of the
  repository; the configuration values are parameters of the model.
\<close>
record config =
  MLAT_DELAY :: real
  MAX_GROUP :: int
  RESOLVE_INTERVAL :: real
  RESOLVE_BACKOFF :: real
  MIN_ALT :: real
  MAX_ALT :: real

type_synonym vec3 = "real \<times> real \<times> real"
type_synonym mat3 = "vec3 \<times> vec3 \<times> vec3"

text \<open>
  The per-aircraft state of the external tracker, with the attributes this file reads or
  writes. The class is not part of this file; an attribute that the code tests against
  \<open>None\<close> or for truth is optional. \<open>alt_history\<close> is a reference to a list object.
\<close>
record aircraft =
  icao :: nat
  allow_mlat :: bool
  seen :: real
  mlat_message_count :: nat
  mlat_result_count :: nat
  mlat_kalman_count :: nat
  altitude :: "int option"
  last_altitude_time :: "real option"
  alt_history :: nat
  vrate :: "int option"
  vrate_time :: "real option"
  squawk :: "nat option"
  callsign :: "string option"
  last_resolve_attempt :: real
  last_result_position :: "vec3 option"
  last_result_var :: real
  last_result_dof :: int
  last_result_time :: "real option"

text \<open>The arguments of one call of the output handlers, and of \<open>forward_results\<close>.\<close>
record handler_call =
  out_time :: real
  out_address :: nat
  out_ecef :: vec3
  out_ecef_cov :: mat3
  out_receivers :: "receiver list"
  out_distinct :: nat
  out_dof :: int
  out_error :: int

record forward_call =
  fwd_time :: real
  fwd_address :: nat
  fwd_ecef :: vec3
  fwd_ecef_cov :: mat3
  fwd_receivers :: "receiver set"
  fwd_distinct :: nat
  fwd_dof :: int
  fwd_error :: int

text \<open>
  The state that the methods of \<open>MlatTracker\<close> work on: the pending map from a message
  to its group, the current cohort, the heaps of group, cohort and altitude-history
  objects with their allocation counters, the blacklist, the aircraft table of the
  external tracker, the coordinator's counters, and the log of the calls made to the
  output handlers and to \<open>forward_results\<close>.
\<close>
record MlatTracker =
  pending :: "message \<rightharpoonup> nat"
  cohort :: nat
  group_heap :: "nat \<Rightarrow> MessageGroup"
  next_group :: nat
  cohort_heap :: "nat \<Rightarrow> Cohort"
  next_cohort :: nat
  blacklist_filename :: "string option"
  blacklist :: "string set"
  aircraft :: "nat \<rightharpoonup> aircraft"
  hist_heap :: "nat \<Rightarrow> (real \<times> int) list"
  next_hist :: nat
  stats_mlat_msgs :: nat
  stats_valid_groups :: nat
  stats_normalize :: nat
  stats_solve_attempt :: nat
  stats_solve_success :: nat
  stats_solve_used :: nat
  outputs :: "handler_call list"
  forwarded :: "forward_call list"

subsection \<open>Group and cohort batcher: \<open>receiver_mlat\<close>\<close>

definition new_MessageGroup :: "message \<Rightarrow> real \<Rightarrow> MessageGroup" where
  "new_MessageGroup msg now =
     \<lparr>message = msg, first_seen = now, copies = [], receivers = {}\<rparr>"

definition new_Cohort :: "real \<Rightarrow> Cohort" where
  "new_Cohort now = \<lparr>creationTime = now, len = 0, groups = []\<rparr>"

text \<open>\<open>self.cohort = Cohort(now, self.loop)\<close>: allocate a cohort and make it current.\<close>
definition open_cohort :: "real \<Rightarrow> MlatTracker \<Rightarrow> MlatTracker" where
  "open_cohort now s =
     s\<lparr>cohort := next_cohort s,
       cohort_heap := (cohort_heap s)(next_cohort s := new_Cohort now),
       next_cohort := Suc (next_cohort s)\<rparr>"

text \<open>The branch \<open>if not group:\<close> of \<open>receiver_mlat\<close>; returns the new group's reference.\<close>
definition create_group ::
  "message \<Rightarrow> real \<Rightarrow> MlatTracker \<Rightarrow> nat \<times> MlatTracker" where
  "create_group msg now s =
     (let g = next_group s;
          s1 = s\<lparr>pending := (pending s)(msg \<mapsto> g),
                 group_heap := (group_heap s)(g := new_MessageGroup msg now),
                 next_group := Suc g\<rparr>;
          cur = cohort_heap s1 (cohort s1);
          s2 = (if now - creationTime cur > 0.05 \<or> len cur > 25
                then open_cohort now s1 else s1);
          c = cohort s2;
          co = cohort_heap s2 c;
          s3 = s2\<lparr>cohort_heap :=
                    (cohort_heap s2)(c := co\<lparr>groups := groups co @ [g], len := len co + 1\<rparr>)\<rparr>
      in (g, s3))"

definition receiver_mlat ::
  "config \<Rightarrow> receiver \<Rightarrow> real \<Rightarrow> message \<Rightarrow> real \<Rightarrow> MlatTracker
     \<Rightarrow> MlatTracker" where
  "receiver_mlat cfg rcv timestamp msg now s0 =
     (let s1 = s0\<lparr>stats_mlat_msgs := Suc (stats_mlat_msgs s0)\<rparr>;
          (g, s2) = (case pending s1 msg of
                       Some g \<Rightarrow> (g, s1)
                     | None \<Rightarrow> create_group msg now s1);
          grp = group_heap s2 g;
          grp1 = grp\<lparr>receivers := insert rcv (receivers grp)\<rparr>;
          s3 = s2\<lparr>group_heap := (group_heap s2)(g := grp1)\<rparr>
      in if int (length (copies grp1)) > MAX_GROUP cfg then s3
         else s3\<lparr>group_heap :=
                   (group_heap s3)(g := grp1\<lparr>copies := copies grp1 @ [(rcv, timestamp, now)]\<rparr>)\<rparr>)"

subsection \<open>Cluster engine: \<open>_cluster_timestamps\<close>\<close>

text \<open>
  The receiver class is not part of this file of the repository. The cluster engine reads
  two attributes of a receiver: its integer \<open>uid\<close> and its table \<open>distance\<close> of
  precomputed distances to the other receivers, indexed by their uid; the resolve
  pipeline reads its \<open>position\<close>. The table is taken as populated for every peer.
\<close>
record receiver_obj =
  uid :: nat
  position :: "real \<times> real \<times> real"
  distance :: "nat \<Rightarrow> real"

type_synonym receiver_table = "receiver \<Rightarrow> receiver_obj"

text \<open>Modelled from the spec: \<open>constants.Cair\<close>, the speed of radio propagation in air
  (about 2.998e8 m/s, adjusted for the atmosphere), and \<open>constants.FTOM\<close>, feet to metres.\<close>
definition Cair :: real where
  "Cair = 299792458 / 1.0003"

definition FTOM :: real where
  "FTOM = 0.3048"

text \<open>A component \<open>{receiver: (variance, [(timestamp, utc), ...]), ...}\<close> in the iteration
  order of the dictionary.\<close>
type_synonym component = "(receiver \<times> real \<times> (real \<times> real) list) list"

text \<open>An item \<open>(receiver, timestamp, variance, utc)\<close> of \<open>flat_component\<close>.\<close>
type_synonym flat_item = "receiver \<times> real \<times> real \<times> real"

text \<open>A cluster member \<open>(receiver, timestamp, variance)\<close> and a cluster
  \<open>(distinct, first_seen, members)\<close>.\<close>
type_synonym member = "receiver \<times> real \<times> real"
type_synonym cluster = "nat \<times> real \<times> member list"

definition item_ts :: "flat_item \<Rightarrow> real" where
  "item_ts t = fst (snd t)"

definition member_ts :: "member \<Rightarrow> real" where
  "member_ts m = fst (snd m)"

definition flatten :: "component \<Rightarrow> flat_item list" where
  "flatten component =
     concat (map (\<lambda>(rcv, variance, timestamps).
                    map (\<lambda>(timestamp, utc). (rcv, timestamp, variance, utc)) timestamps)
                 component)"

text \<open>
  The rough grouping. \<open>finished\<close> holds the groups already finished; the group being filled
  is \<open>grp @ [prev]\<close>, so that \<open>group[-1]\<close> is \<open>prev\<close>.
\<close>
fun rough_groups ::
  "flat_item list list \<Rightarrow> flat_item list \<Rightarrow> flat_item \<Rightarrow> flat_item list
     \<Rightarrow> flat_item list list" where
  "rough_groups finished grp prev [] = finished @ [grp @ [prev]]"
| "rough_groups finished grp prev (t # rest) =
     (if item_ts t - item_ts prev > 2 / 1000
      then rough_groups (finished @ [grp @ [prev]]) [] t rest
      else rough_groups finished (grp @ [prev]) t rest)"

text \<open>
  The strict test of a candidate against the members already in the cluster; the result is
  \<open>(can_cluster, is_distinct)\<close>. The variable \<open>min_d\<close> of the source is written but never
  read, and is left out.
\<close>
fun check_candidate ::
  "receiver_table \<Rightarrow> receiver \<Rightarrow> real \<Rightarrow> member list \<Rightarrow> bool \<Rightarrow> bool \<times> bool" where
  "check_candidate R rcv timestamp [] is_distinct = (True, is_distinct)"
| "check_candidate R rcv timestamp ((other_receiver, other_timestamp, other_variance) # rest)
       is_distinct =
     (if other_receiver = rcv then (False, is_distinct)
      else let d = distance (R rcv) (uid (R other_receiver)) in
        if \<bar>other_timestamp - timestamp\<bar> > (d * 1.05 + 1000) / Cair then (False, is_distinct)
        else check_candidate R rcv timestamp rest (if d < 1000 then False else is_distinct))"

text \<open>
  The loop \<open>for i in range(len(group) - 1, -1, -1)\<close>. \<open>todo\<close> holds the items not yet
  considered, latest first; \<open>kept\<close> the items considered and left in the group, in the
  group's order. The result is the cluster in the order of its construction, its
  \<open>first_seen\<close>, its \<open>distinct_receivers\<close> and the group after the deletions.
\<close>
fun form_cluster ::
  "receiver_table \<Rightarrow> real \<Rightarrow> flat_item list \<Rightarrow> member list \<Rightarrow> real \<Rightarrow> nat \<Rightarrow> flat_item list
     \<Rightarrow> member list \<times> real \<times> nat \<times> flat_item list" where
  "form_cluster R last_timestamp [] cl fs dn kept = (cl, fs, dn, kept)"
| "form_cluster R last_timestamp ((rcv, timestamp, variance, utc) # todo) cl fs dn kept =
     (if last_timestamp - timestamp > 2 / 1000
      then (cl, fs, dn, rev ((rcv, timestamp, variance, utc) # todo) @ kept)
      else case check_candidate R rcv timestamp cl True of
             (can_cluster, is_distinct) \<Rightarrow>
               if can_cluster
               then form_cluster R last_timestamp todo (cl @ [(rcv, timestamp, variance)])
                      (min fs utc) (if is_distinct then Suc dn else dn) kept
               else form_cluster R last_timestamp todo cl fs dn
                      ((rcv, timestamp, variance, utc) # kept))"

text \<open>One round of \<open>while len(group) >= min_receivers\<close> after the seed was popped.\<close>
definition seed_cluster ::
  "receiver_table \<Rightarrow> flat_item \<Rightarrow> flat_item list
     \<Rightarrow> member list \<times> real \<times> nat \<times> flat_item list" where
  "seed_cluster R seed todo =
     (case seed of (rcv, timestamp, variance, utc) \<Rightarrow>
        form_cluster R timestamp todo [(rcv, timestamp, variance)] utc 1 [])"

definition emit_cluster ::
  "int \<Rightarrow> member list \<times> real \<times> nat \<times> flat_item list \<Rightarrow> cluster list \<Rightarrow> cluster list" where
  "emit_cluster min_receivers formed clusters =
     (case formed of (cl, fs, dn, grp) \<Rightarrow>
        if int dn \<ge> min_receivers then clusters @ [(dn, fs, rev cl)] else clusters)"

definition group_left :: "member list \<times> real \<times> nat \<times> flat_item list \<Rightarrow> flat_item list" where
  "group_left formed = snd (snd (snd formed))"

lemma form_cluster_length:
  "length (group_left (form_cluster R lt todo cl fs dn kept)) \<le> length todo + length kept"
proof (induction R lt todo cl fs dn kept rule: form_cluster.induct)
  case (1 R last_timestamp cl fs dn kept)
  then show ?case by (simp add: group_left_def)
next
  case (2 R last_timestamp rcv timestamp variance utc todo cl fs dn kept)
  show ?case
  proof (cases "last_timestamp - timestamp > 2 / 1000")
    case True
    then show ?thesis by (simp add: group_left_def)
  next
    case False
    obtain can_cluster is_distinct
      where chk: "check_candidate R rcv timestamp cl True = (can_cluster, is_distinct)"
      by (cases "check_candidate R rcv timestamp cl True")
    show ?thesis
    proof (cases can_cluster)
      case True
      with False chk 2(1) [OF False chk [symmetric] True] show ?thesis
        by simp
    next
      case nc: False
      with False chk 2(2) [OF False chk [symmetric] nc] show ?thesis
        by simp
    qed
  qed
qed

function extract_clusters ::
  "receiver_table \<Rightarrow> int \<Rightarrow> flat_item list \<Rightarrow> cluster list \<Rightarrow> error + cluster list" where
  "extract_clusters R min_receivers grp clusters =
     (if int (length grp) \<ge> min_receivers then
        (case rev grp of
           [] \<Rightarrow> Inl IndexError
         | seed # todo \<Rightarrow>
             extract_clusters R min_receivers (group_left (seed_cluster R seed todo))
               (emit_cluster min_receivers (seed_cluster R seed todo) clusters))
      else Inr clusters)"
  by pat_completeness auto
termination
proof (relation "measure (\<lambda>(R, m, grp, clusters). length grp)")
  show "wf (measure (\<lambda>(R, m, grp, clusters). length grp))"
    by simp
next
  fix R :: receiver_table and min_receivers :: int and grp :: "flat_item list"
    and clusters :: "cluster list" and seed todo
  assume "rev grp = seed # todo"
  then have "length grp = Suc (length todo)"
    by (metis length_Cons length_rev)
  moreover have "length (group_left (seed_cluster R seed todo)) \<le> length todo"
    using form_cluster_length [of R _ todo _ _ 1 "[]"]
    by (simp add: seed_cluster_def split: prod.splits)
  ultimately show
    "((R, min_receivers, group_left (seed_cluster R seed todo),
       emit_cluster min_receivers (seed_cluster R seed todo) clusters),
      (R, min_receivers, grp, clusters)) \<in> measure (\<lambda>(R, m, grp, clusters). length grp)"
    by simp
qed

fun cluster_groups ::
  "receiver_table \<Rightarrow> int \<Rightarrow> flat_item list list \<Rightarrow> cluster list \<Rightarrow> error + cluster list" where
  "cluster_groups R min_receivers [] clusters = Inr clusters"
| "cluster_groups R min_receivers (grp # grps) clusters =
     (case extract_clusters R min_receivers grp clusters of
        Inl e \<Rightarrow> Inl e
      | Inr clusters' \<Rightarrow> cluster_groups R min_receivers grps clusters')"

definition cluster_timestamps ::
  "receiver_table \<Rightarrow> component \<Rightarrow> int \<Rightarrow> error + cluster list" where
  "cluster_timestamps R component min_receivers =
     (case sort_key item_ts (flatten component) of
        [] \<Rightarrow> Inl IndexError
      | t0 # rest \<Rightarrow> cluster_groups R min_receivers (rough_groups [] [] t0 rest) [])"

subsection \<open>Cluster engine on a heap\<close>

text \<open>
  A second embedding of \<open>_cluster_timestamps\<close>, with the lists and the dictionary of the
  source as objects of a heap. The component is a dictionary object whose values hold
  references to the lists of timestamps; \<open>flat_component\<close>, the rough groups, the list
  \<open>groups\<close>, every cluster and the list \<open>clusters\<close> are list objects that the function
  creates and then changes in place (\<open>append\<close>, \<open>sort\<close>, \<open>pop\<close>, \<open>del\<close>, \<open>reverse\<close>).
\<close>
datatype obj =
  StampList "(real \<times> real) list"
| Component "(receiver \<times> real \<times> nat) list"
| ItemList "flat_item list"
| GroupList "nat list"
| MemberList "member list"
| ClusterList "(nat \<times> real \<times> nat) list"

record pyheap =
  cells :: "nat \<Rightarrow> obj"
  free :: nat

text \<open>A step on the heap returns a value or raises; either way it leaves a heap.\<close>
datatype 'v hres = Ok 'v pyheap | Err error pyheap

fun heap_of :: "'v hres \<Rightarrow> pyheap" where
  "heap_of (Ok v h) = h"
| "heap_of (Err e h) = h"

definition alloc :: "obj \<Rightarrow> pyheap \<Rightarrow> nat \<times> pyheap" where
  "alloc v h = (free h, \<lparr>cells = (cells h)(free h := v), free = Suc (free h)\<rparr>)"

definition items_at :: "pyheap \<Rightarrow> nat \<Rightarrow> flat_item list" where
  "items_at h r = (case cells h r of ItemList xs \<Rightarrow> xs | _ \<Rightarrow> [])"

definition members_at :: "pyheap \<Rightarrow> nat \<Rightarrow> member list" where
  "members_at h r = (case cells h r of MemberList xs \<Rightarrow> xs | _ \<Rightarrow> [])"

definition groups_at :: "pyheap \<Rightarrow> nat \<Rightarrow> nat list" where
  "groups_at h r = (case cells h r of GroupList xs \<Rightarrow> xs | _ \<Rightarrow> [])"

definition clusters_at :: "pyheap \<Rightarrow> nat \<Rightarrow> (nat \<times> real \<times> nat) list" where
  "clusters_at h r = (case cells h r of ClusterList xs \<Rightarrow> xs | _ \<Rightarrow> [])"

definition put :: "nat \<Rightarrow> obj \<Rightarrow> pyheap \<Rightarrow> pyheap" where
  "put r v h = h\<lparr>cells := (cells h)(r := v)\<rparr>"

text \<open>Lines 446 to 449: the two loops that fill \<open>flat_component\<close>.\<close>
fun flatten_stamps :: "nat \<Rightarrow> receiver \<Rightarrow> real \<Rightarrow> (real \<times> real) list \<Rightarrow> pyheap \<Rightarrow> pyheap" where
  "flatten_stamps flat rcv variance [] h = h"
| "flatten_stamps flat rcv variance ((timestamp, utc) # rest) h =
     flatten_stamps flat rcv variance rest
       (put flat (ItemList (items_at h flat @ [(rcv, timestamp, variance, utc)])) h)"

fun flatten_entries :: "nat \<Rightarrow> (receiver \<times> real \<times> nat) list \<Rightarrow> pyheap \<Rightarrow> unit hres" where
  "flatten_entries flat [] h = Ok () h"
| "flatten_entries flat ((rcv, variance, timestamps) # rest) h =
     (case cells h timestamps of
        StampList ts \<Rightarrow> flatten_entries flat rest (flatten_stamps flat rcv variance ts h)
      | _ \<Rightarrow> Err TypeError h)"

text \<open>Lines 455 to 462: the rough grouping; \<open>grp\<close> is the reference held by \<open>group\<close>.\<close>
fun rough_loop :: "nat \<Rightarrow> nat \<Rightarrow> flat_item list \<Rightarrow> pyheap \<Rightarrow> unit hres" where
  "rough_loop grps grp [] h = Ok () h"
| "rough_loop grps grp (t # rest) h =
     (case rev (items_at h grp) of
        [] \<Rightarrow> Err IndexError h
      | prev # _ \<Rightarrow>
          if item_ts t - item_ts prev > 2 / 1000
          then (case alloc (ItemList [t]) h of
                  (grp', h1) \<Rightarrow>
                    rough_loop grps grp' rest (put grps (GroupList (groups_at h1 grps @ [grp'])) h1))
          else rough_loop grps grp rest (put grp (ItemList (items_at h grp @ [t])) h))"

text \<open>\<open>del group[i]\<close>.\<close>
definition delete_at :: "nat \<Rightarrow> 'a list \<Rightarrow> 'a list" where
  "delete_at i xs = take i xs @ drop (Suc i) xs"

text \<open>
  Lines 487 to 535: the loop over \<open>i = len(group) - 1, ..., 0\<close>; \<open>n\<close> is the number of
  indices still to visit, so the index visited is \<open>n - 1\<close>. The value returned is
  \<open>(first_seen, distinct_receivers)\<close>.
\<close>
fun form_loop ::
  "receiver_table \<Rightarrow> real \<Rightarrow> nat \<Rightarrow> nat \<Rightarrow> nat \<Rightarrow> real \<Rightarrow> nat \<Rightarrow> pyheap \<Rightarrow> (real \<times> nat) hres" where
  "form_loop R last_timestamp grp cl 0 fs dn h = Ok (fs, dn) h"
| "form_loop R last_timestamp grp cl (Suc i) fs dn h =
     (if i < length (items_at h grp) then
        (case items_at h grp ! i of
           (rcv, timestamp, variance, utc) \<Rightarrow>
             if last_timestamp - timestamp > 2 / 1000 then Ok (fs, dn) h
             else (case check_candidate R rcv timestamp (members_at h cl) True of
                     (can_cluster, is_distinct) \<Rightarrow>
                       if can_cluster
                       then (let h1 = put cl (MemberList (members_at h cl
                                                 @ [(rcv, timestamp, variance)])) h;
                                 h2 = put grp (ItemList (delete_at i (items_at h1 grp))) h1
                             in form_loop R last_timestamp grp cl i (min fs utc)
                                  (if is_distinct then Suc dn else dn) h2)
                       else form_loop R last_timestamp grp cl i fs dn h))
      else Err IndexError h)"

text \<open>Lines 478 to 540: one pass of the \<open>while\<close> loop, from \<open>group.pop()\<close> on.\<close>
definition extract_pass ::
  "receiver_table \<Rightarrow> int \<Rightarrow> nat \<Rightarrow> nat \<Rightarrow> flat_item \<Rightarrow> pyheap \<Rightarrow> unit hres" where
  "extract_pass R min_receivers grp clusters seed h =
     (case seed of (rcv, timestamp, variance, utc) \<Rightarrow>
        let h1 = put grp (ItemList (butlast (items_at h grp))) h
        in case alloc (MemberList [(rcv, timestamp, variance)]) h1 of
             (cl, h2) \<Rightarrow>
               (case form_loop R timestamp grp cl (length (items_at h2 grp)) utc 1 h2 of
                  Err e h3 \<Rightarrow> Err e h3
                | Ok (fs, dn) h3 \<Rightarrow>
                    if int dn \<ge> min_receivers
                    then (let h4 = put cl (MemberList (rev (members_at h3 cl))) h3
                          in Ok () (put clusters
                                      (ClusterList (clusters_at h4 clusters @ [(dn, fs, cl)])) h4))
                    else Ok () h3))"

lemma items_at_put:
  "items_at (put r v h) r' =
     (if r' = r then (case v of ItemList xs \<Rightarrow> xs | _ \<Rightarrow> []) else items_at h r')"
  by (simp add: items_at_def put_def)

lemma length_delete_at: "length (delete_at i xs) \<le> length xs"
  by (simp add: delete_at_def)

lemma form_loop_length:
  "length (items_at (heap_of (form_loop R lt grp cl n fs dn h)) grp) \<le> length (items_at h grp)"
proof (induction n arbitrary: fs dn h)
  case 0
  then show ?case by simp
next
  case (Suc i)
  show ?case
  proof (cases "i < length (items_at h grp)")
    case False
    then show ?thesis by simp
  next
    case True
    obtain rcv timestamp variance utc
      where it: "items_at h grp ! i = (rcv, timestamp, variance, utc)"
      by (cases "items_at h grp ! i")
    obtain can_cluster is_distinct
      where chk: "check_candidate R rcv timestamp (members_at h cl) True
                    = (can_cluster, is_distinct)"
      by (cases "check_candidate R rcv timestamp (members_at h cl) True")
    let ?h1 = "put cl (MemberList (members_at h cl @ [(rcv, timestamp, variance)])) h"
    let ?h2 = "put grp (ItemList (delete_at i (items_at ?h1 grp))) ?h1"
    have "length (items_at ?h2 grp) \<le> length (items_at h grp)"
      using length_delete_at [of i "items_at h grp"] by (simp add: items_at_put delete_at_def)
    with Suc [where fs = "min fs utc" and dn = "if is_distinct then Suc dn else dn" and h = ?h2]
      Suc [where fs = fs and dn = dn and h = h]
    show ?thesis
      using True it chk by (auto simp: Let_def)
  qed
qed

lemma extract_pass_length:
  assumes "items_at h grp \<noteq> []"
  shows "length (items_at (heap_of (extract_pass R m grp clusters seed h)) grp)
           < length (items_at h grp)"
proof -
  obtain rcv timestamp variance utc where seed: "seed = (rcv, timestamp, variance, utc)"
    by (cases seed)
  let ?h1 = "put grp (ItemList (butlast (items_at h grp))) h"
  let ?cl = "free ?h1"
  let ?h2 = "snd (alloc (MemberList [(rcv, timestamp, variance)]) ?h1)"
  let ?fl = "form_loop R timestamp grp ?cl (length (items_at ?h2 grp)) utc 1 ?h2"
  have l2: "length (items_at ?h2 grp) < length (items_at h grp)"
    using assms by (auto simp: alloc_def items_at_def put_def)
  have l3: "length (items_at (heap_of ?fl) grp) < length (items_at h grp)"
    using form_loop_length [of R timestamp grp ?cl "length (items_at ?h2 grp)" utc 1 ?h2] l2
    by simp
  show ?thesis
  proof (cases ?fl)
    case (Err e h3)
    with l3 seed show ?thesis
      by (simp add: extract_pass_def alloc_def Let_def)
  next
    case (Ok v h3)
    obtain fs dn where v: "v = (fs, dn)" by (cases v)
    from Ok l3 have "length (items_at h3 grp) < length (items_at h grp)" by simp
    then have "length (items_at (put clusters (ClusterList cs)
                 (put ?cl (MemberList ms) h3)) grp) < length (items_at h grp)" for cs ms
      using assms by (auto simp: items_at_put)
    with Ok v seed \<open>length (items_at h3 grp) < length (items_at h grp)\<close> show ?thesis
      by (simp add: extract_pass_def alloc_def Let_def)
  qed
qed

text \<open>Lines 477 to 540: the \<open>while\<close> loop on one rough group.\<close>
function extract_heap :: "receiver_table \<Rightarrow> int \<Rightarrow> nat \<Rightarrow> nat \<Rightarrow> pyheap \<Rightarrow> unit hres" where
  "extract_heap R min_receivers grp clusters h =
     (if int (length (items_at h grp)) \<ge> min_receivers then
        (case rev (items_at h grp) of
           [] \<Rightarrow> Err IndexError h
         | seed # _ \<Rightarrow>
             (case extract_pass R min_receivers grp clusters seed h of
                Err e h' \<Rightarrow> Err e h'
              | Ok _ h' \<Rightarrow> extract_heap R min_receivers grp clusters h'))
      else Ok () h)"
  by pat_completeness auto
termination
proof (relation "measure (\<lambda>(R, m, grp, clusters, h). length (items_at h grp))")
  show "wf (measure (\<lambda>(R, m, grp, clusters, h). length (items_at h grp)))"
    by simp
next
  fix R :: receiver_table and min_receivers :: int and grp clusters :: nat and h :: pyheap
    and seed todo u h'
  assume "rev (items_at h grp) = seed # todo"
    and "extract_pass R min_receivers grp clusters seed h = Ok u h'"
  then have "items_at h grp \<noteq> []" "heap_of (extract_pass R min_receivers grp clusters seed h) = h'"
    by auto
  with extract_pass_length [of h grp R min_receivers clusters seed]
  show "((R, min_receivers, grp, clusters, h'), (R, min_receivers, grp, clusters, h))
          \<in> measure (\<lambda>(R, m, grp, clusters, h). length (items_at h grp))"
    by simp
qed

text \<open>Line 472: the loop over the rough groups.\<close>
fun cluster_groups_heap :: "receiver_table \<Rightarrow> int \<Rightarrow> nat list \<Rightarrow> nat \<Rightarrow> pyheap \<Rightarrow> unit hres" where
  "cluster_groups_heap R min_receivers [] clusters h = Ok () h"
| "cluster_groups_heap R min_receivers (grp # grps) clusters h =
     (case extract_heap R min_receivers grp clusters h of
        Err e h' \<Rightarrow> Err e h'
      | Ok _ h' \<Rightarrow> cluster_groups_heap R min_receivers grps clusters h')"

text \<open>
  \<open>_cluster_timestamps(component, min_receivers)\<close>, called with the reference of the
  component; the value returned is the reference of the list \<open>clusters\<close>.
\<close>
definition cluster_timestamps_heap :: "receiver_table \<Rightarrow> nat \<Rightarrow> int \<Rightarrow> pyheap \<Rightarrow> nat hres" where
  "cluster_timestamps_heap R component min_receivers h0 =
     (case alloc (ItemList []) h0 of
        (flat, h1) \<Rightarrow>
          (case cells h1 component of
             Component entries \<Rightarrow>
               (case flatten_entries flat entries h1 of
                  Err e h2 \<Rightarrow> Err e h2
                | Ok _ h2 \<Rightarrow>
                    let h3 = put flat (ItemList (sort_key item_ts (items_at h2 flat))) h2
                    in (case items_at h3 flat of
                          [] \<Rightarrow> Err IndexError h3
                        | t0 # rest \<Rightarrow>
                            (case alloc (ItemList [t0]) h3 of
                               (grp, h4) \<Rightarrow>
                                 (case alloc (GroupList [grp]) h4 of
                                    (grps, h5) \<Rightarrow>
                                      (case alloc (ItemList rest) h5 of
                                         (tail, h6) \<Rightarrow>
                                           (case rough_loop grps grp (items_at h6 tail) h6 of
                                              Err e h7 \<Rightarrow> Err e h7
                                            | Ok _ h7 \<Rightarrow>
                                                (case alloc (ClusterList []) h7 of
                                                   (clusters, h8) \<Rightarrow>
                                                     (case cluster_groups_heap R min_receivers
                                                             (groups_at h8 grps) clusters h8 of
                                                        Err e h9 \<Rightarrow> Err e h9
                                                      | Ok _ h9 \<Rightarrow> Ok clusters h9))))))))
           | _ \<Rightarrow> Err TypeError h1))"

subsection \<open>The blacklist: \<open>read_blacklist\<close>\<close>

text \<open>
  The file system is a function from a file name to the text of the file, \<open>None\<close> when
  \<open>open\<close> raises \<open>FileNotFoundError\<close>. The text is taken as decoded ASCII. The file is
  opened in text mode with universal newlines, so \<open>readline\<close> ends a line at a line
  feed, a carriage return or the two together, and returns it with the ending \<open>\n\<close>.
\<close>
type_synonym filesystem = "string \<Rightarrow> string option"

definition LF :: char where
  "LF = CHR 0x0A"

definition CR :: char where
  "CR = CHR 0x0D"

fun readline :: "string \<Rightarrow> string" where
  "readline [] = []"
| "readline (c # cs) = (if c = LF \<or> c = CR then [LF] else c # readline cs)"

text \<open>\<open>str.isspace\<close> on an ASCII character.\<close>
definition isspace :: "char \<Rightarrow> bool" where
  "isspace c \<longleftrightarrow> (of_char c :: nat) \<in> {9, 10, 11, 12, 13, 28, 29, 30, 31, 32}"

definition strip :: "string \<Rightarrow> string" where
  "strip s = rev (dropWhile isspace (rev (dropWhile isspace s)))"

definition read_blacklist :: "filesystem \<Rightarrow> MlatTracker \<Rightarrow> MlatTracker" where
  "read_blacklist fs s =
     (let b = (case blacklist_filename s of
                 None \<Rightarrow> {}
               | Some filename \<Rightarrow>
                   if filename = [] then {}
                   else (case fs filename of
                           None \<Rightarrow> {}
                         | Some text \<Rightarrow>
                             let user = strip (readline text)
                             in if user \<noteq> [] then insert user {} else {}))
      in s\<lparr>blacklist := b\<rparr>)"

subsection \<open>The resolve pipeline: \<open>_resolve\<close>\<close>

text \<open>
  The external collaborators are parameters: the table of receiver objects, the message decoder, the clock tracker's \<open>normalize2\<close> (\<open>None\<close> when it
  raises, which \<open>_resolve\<close> catches), the solver, the geodesy conversions and the Kalman
  filter's \<open>update\<close>, of which only the truth of the result is used. The state of the
  filter itself and the pseudorange log (a write to a file, after everything else) are
  not modelled.
\<close>
record decoded =
  address :: "nat option"
  decoded_altitude :: "int option"
  decoded_squawk :: "nat option"
  decoded_callsign :: "string option"

type_synonym timestamp_map = "(receiver \<times> (real \<times> real) list) list"

record env =
  receiver_objs :: receiver_table
  decode :: "message \<Rightarrow> decoded option"
  normalize2 :: "timestamp_map \<Rightarrow> component list option"
  solve :: "member list \<Rightarrow> real option \<Rightarrow> real option \<Rightarrow> vec3 option
              \<Rightarrow> (vec3 \<times> mat3 option) option"
  ecef2llh :: "vec3 \<Rightarrow> vec3"
  llh2ecef :: "vec3 \<Rightarrow> vec3"
  kalman_update :: "real \<Rightarrow> member list \<Rightarrow> real \<Rightarrow> real option \<Rightarrow> vec3 \<Rightarrow> mat3
                      \<Rightarrow> nat \<Rightarrow> int \<Rightarrow> bool"

text \<open>A stage of the method continues with a value, returns from the method, or raises.\<close>
datatype ('v, 's) flow = Next 'v 's | Ret 's | Exc error 's

definition store_ac :: "nat \<Rightarrow> aircraft \<times> MlatTracker \<Rightarrow> MlatTracker" where
  "store_ac addr p = (snd p)\<lparr>aircraft := (aircraft (snd p))(addr \<mapsto> fst p)\<rparr>"

text \<open>Python's \<open>xs[0]\<close> and \<open>int(x)\<close> (truncation towards zero).\<close>
definition first_item :: "'a list \<Rightarrow> error + 'a" where
  "first_item xs = (case xs of [] \<Rightarrow> Inl IndexError | x # _ \<Rightarrow> Inr x)"

definition py_int :: "real \<Rightarrow> int" where
  "py_int x = (if x \<ge> 0 then \<lfloor>x\<rfloor> else \<lceil>x\<rceil>)"

text \<open>The test that decides whether a decoded altitude becomes the tracked altitude.\<close>
definition accept_altitude :: "int \<Rightarrow> real \<Rightarrow> aircraft \<Rightarrow> error + bool" where
  "accept_altitude alt fs ac =
     (case last_altitude_time ac of
        None \<Rightarrow> Inr True
      | Some lat \<Rightarrow>
          if lat = 0 then Inr True
          else if fs > lat then
            (if fs - lat > 15 then Inr True
             else case altitude ac of
                    None \<Rightarrow> Inl TypeError
                  | Some a \<Rightarrow> Inr (\<bar>a - alt\<bar> < 4000))
          else Inr False)"

text \<open>
  Lines 163 to 172: the new altitude, and the history. \<open>new_hist\<close> is a fresh list
  object; the loop appends to it the samples of the old history younger than 20 s;
  then \<open>ac.alt_history\<close> is set to the new object and the sample is appended through
  \<open>ac.alt_history\<close>. The result carries the reference held by \<open>new_hist\<close>.
\<close>
definition prune_into ::
  "real \<Rightarrow> nat \<Rightarrow> (real \<times> int) list \<Rightarrow> (nat \<Rightarrow> (real \<times> int) list) \<Rightarrow> (nat \<Rightarrow> (real \<times> int) list)" where
  "prune_into fs new_hist old h =
     foldl (\<lambda>h (ts, old_alt).
              if fs - ts < 20 then h(new_hist := h new_hist @ [(ts, old_alt)]) else h) h old"

definition record_altitude ::
  "int \<Rightarrow> real \<Rightarrow> aircraft \<times> MlatTracker \<Rightarrow> nat \<times> aircraft \<times> MlatTracker" where
  "record_altitude alt fs p =
     (let ac1 = (fst p)\<lparr>altitude := Some alt, last_altitude_time := Some fs\<rparr>;
          s = snd p;
          new_hist = next_hist s;
          s1 = s\<lparr>hist_heap := (hist_heap s)(new_hist := []), next_hist := Suc new_hist\<rparr>;
          s2 = s1\<lparr>hist_heap := prune_into fs new_hist (hist_heap s1 (alt_history ac1)) (hist_heap s1)\<rparr>;
          ac2 = ac1\<lparr>alt_history := new_hist\<rparr>;
          s3 = s2\<lparr>hist_heap := (hist_heap s2)
                      (alt_history ac2 := hist_heap s2 (alt_history ac2) @ [(fs, alt)])\<rparr>
      in (new_hist, ac2, s3))"

text \<open>Lines 174 to 182, given the sample read as \<open>new_hist[0]\<close>.\<close>
definition update_vrate ::
  "int \<Rightarrow> real \<Rightarrow> real \<times> int \<Rightarrow> aircraft \<Rightarrow> error + aircraft" where
  "update_vrate alt fs oldest ac =
     (let ts_diff = fs - fst oldest in
      if ts_diff > 10 then
        (let new_vrate = (real_of_int alt - real_of_int (snd oldest)) / (ts_diff / 60) in
         case (case vrate ac of
                 None \<Rightarrow> Inr (py_int new_vrate)
               | Some v \<Rightarrow>
                   if v = 0 then Inr (py_int new_vrate)
                   else (case vrate_time ac of
                           None \<Rightarrow> Inl TypeError
                         | Some vt \<Rightarrow>
                             if fs - vt < 15
                             then Inr (py_int (real_of_int v + 0.3 * (new_vrate - real_of_int v)))
                             else Inr (py_int new_vrate))) of
           Inl e \<Rightarrow> Inl e
         | Inr v' \<Rightarrow> Inr (ac\<lparr>vrate := Some v', vrate_time := Some fs\<rparr>))
      else Inr ac)"

text \<open>Lines 157 to 182.\<close>
definition update_altitude ::
  "decoded \<Rightarrow> real \<Rightarrow> aircraft \<times> MlatTracker \<Rightarrow> (unit, aircraft \<times> MlatTracker) flow" where
  "update_altitude d fs p =
     (case decoded_altitude d of
        None \<Rightarrow> Next () p
      | Some alt \<Rightarrow>
          if alt > - 1500 \<and> alt < 75000 then
            (case accept_altitude alt fs (fst p) of
               Inl e \<Rightarrow> Exc e p
             | Inr False \<Rightarrow> Next () p
             | Inr True \<Rightarrow>
                 (case record_altitude alt fs p of
                    (new_hist, ac, s) \<Rightarrow>
                      (case first_item (hist_heap s new_hist) of
                         Inl e \<Rightarrow> Exc e (ac, s)
                       | Inr oldest \<Rightarrow>
                           (case update_vrate alt fs oldest ac of
                              Inl e \<Rightarrow> Exc e (ac, s)
                            | Inr ac' \<Rightarrow> Next () (ac', s)))))
          else Next () p)"

text \<open>Lines 194 to 204: the old result, if present and not older than 120 s.\<close>
definition prior_result ::
  "real \<Rightarrow> aircraft \<Rightarrow> error + (vec3 option \<times> real \<times> int \<times> real)" where
  "prior_result fs ac =
     (case last_result_position ac of
        None \<Rightarrow> Inr (None, 10 ^ 9, 0, fs - 120)
      | Some pos \<Rightarrow>
          (case last_result_time ac of
             None \<Rightarrow> Inl TypeError
           | Some t \<Rightarrow>
               if fs - t > 120 then Inr (None, 10 ^ 9, 0, fs - 120)
               else Inr (Some pos, last_result_var ac, last_result_dof ac, t)))"

text \<open>Lines 214 to 225: the altitude constraint \<open>(altitude, altitude_dof)\<close>.\<close>
definition altitude_constraint ::
  "config \<Rightarrow> real \<Rightarrow> aircraft \<Rightarrow> error + (real option \<times> int)" where
  "altitude_constraint c fs ac =
     (case altitude ac of
        None \<Rightarrow> Inr (None, 0)
      | Some a \<Rightarrow>
          if real_of_int a < MIN_ALT c \<or> real_of_int a > MAX_ALT c then Inr (None, 0)
          else (case last_altitude_time ac of
                  None \<Rightarrow> Inl TypeError
                | Some lat \<Rightarrow>
                    if fs > lat + 45 then Inr (None, 0)
                    else Inr (Some (real_of_int a * FTOM), 1)))"

text \<open>Lines 236 to 238: \<open>timestamp_map.setdefault(receiver, []).append((timestamp, utc))\<close>.\<close>
fun setdefault_append :: "timestamp_map \<Rightarrow> receiver \<Rightarrow> real \<times> real \<Rightarrow> timestamp_map" where
  "setdefault_append [] rcv v = [(rcv, [v])]"
| "setdefault_append ((k, vs) # rest) rcv v =
     (if k = rcv then (k, vs @ [v]) # rest else (k, vs) # setdefault_append rest rcv v)"

definition build_timestamp_map :: "copy list \<Rightarrow> timestamp_map" where
  "build_timestamp_map cs =
     foldl (\<lambda>tm (rcv, timestamp, utc). setdefault_append tm rcv (timestamp, utc)) [] cs"

text \<open>Lines 261 to 265.\<close>
fun collect_clusters ::
  "receiver_table \<Rightarrow> int \<Rightarrow> component list \<Rightarrow> cluster list \<Rightarrow> error + cluster list" where
  "collect_clusters R min_component_size [] clusters = Inr clusters"
| "collect_clusters R min_component_size (component # rest) clusters =
     (if int (length component) \<ge> min_component_size then
        (case cluster_timestamps R component min_component_size of
           Inl e \<Rightarrow> Inl e
         | Inr cs \<Rightarrow> collect_clusters R min_component_size rest (clusters @ cs))
      else collect_clusters R min_component_size rest clusters)"

definition trace :: "mat3 \<Rightarrow> real" where
  "trace m = (case m of ((a, _, _), (_, b, _), (_, _, c)) \<Rightarrow> a + b + c)"

definition max_error :: real where
  "max_error = 10000"

text \<open>The values of the local variables of \<open>_resolve\<close> when the loop accepts a result.\<close>
record accepted =
  res_ecef :: vec3
  res_ecef_cov :: mat3
  res_var_est :: real
  res_error :: int
  res_distinct :: nat
  res_dof :: int
  res_cluster_utc :: real
  res_elapsed :: real
  res_cluster :: "member list"
  res_altitude_error :: "real option"

datatype loop_result =
  Accepted accepted MlatTracker
| Exhausted MlatTracker
| Aborted MlatTracker
| LoopRaised error MlatTracker

text \<open>Lines 291 to 296.\<close>
definition altitude_error_of ::
  "decoded \<Rightarrow> real option \<Rightarrow> aircraft \<Rightarrow> real \<Rightarrow> error + real option" where
  "altitude_error_of d alt ac cluster_utc =
     (if decoded_altitude d \<noteq> None then Inr (Some (250 * FTOM))
      else if alt \<noteq> None then
        (case last_altitude_time ac of
           None \<Rightarrow> Inl TypeError
         | Some lat \<Rightarrow> Inr (Some ((250 + (cluster_utc - lat) * 70) * FTOM)))
      else Inr None)"

text \<open>Lines 303 to 306.\<close>
definition initial_guess_of ::
  "receiver_table \<Rightarrow> real \<Rightarrow> vec3 option \<Rightarrow> member list \<Rightarrow> error + vec3 option" where
  "initial_guess_of R elapsed last_result_pos cl =
     (if elapsed < 60 then Inr last_result_pos
      else (case first_item cl of
              Inl e \<Rightarrow> Inl e
            | Inr (rcv, _, _) \<Rightarrow> Inr (Some (position (R rcv)))))"

text \<open>
  One pass through the body of the loop \<open>while clusters and not result\<close> (lines 275
  to 348) for the cluster that \<open>clusters.pop()\<close> returned: the pass ends the method
  (\<open>return\<close>), goes on with the next cluster (\<open>continue\<close>, or a solver miss), accepts
  the solver's result, or raises.
\<close>
datatype attempt =
  Continue MlatTracker
| Accept accepted MlatTracker
| Abort MlatTracker
| Fail error MlatTracker

definition try_cluster ::
  "env \<Rightarrow> decoded \<Rightarrow> aircraft \<Rightarrow> real option \<Rightarrow> int \<Rightarrow> vec3 option \<Rightarrow> int \<Rightarrow> real
     \<Rightarrow> cluster \<Rightarrow> MlatTracker \<Rightarrow> attempt" where
  "try_cluster E d ac alt altitude_dof lr_position lr_dof lr_time c s =
     (case c of (distinct_n, cluster_utc, cl) \<Rightarrow>
      let elapsed = cluster_utc - lr_time;
          dof = int distinct_n + altitude_dof - 4
      in if elapsed < 2 \<and> real_of_int dof < real_of_int lr_dof - elapsed + 0.5 then Abort s
         else (case altitude_error_of d alt ac cluster_utc of
                 Inl e \<Rightarrow> Fail e s
               | Inr altitude_error \<Rightarrow>
                   let cl' = sort_key member_ts cl
                   in if elapsed > 30 \<and> dof = 0 then Continue s
                      else (case initial_guess_of (receiver_objs E) elapsed lr_position cl' of
                              Inl e \<Rightarrow> Fail e s
                            | Inr initial_guess \<Rightarrow>
                                let s1 = s\<lparr>stats_solve_attempt := Suc (stats_solve_attempt s)\<rparr>
                                in (case solve E cl' alt altitude_error initial_guess of
                                      None \<Rightarrow> Continue s1
                                    | Some (ecef, None) \<Rightarrow> Continue s1
                                    | Some (ecef, Some ecef_cov) \<Rightarrow>
                                        let var_est = trace ecef_cov;
                                            err = py_int (sqrt \<bar>var_est\<bar>)
                                        in if real_of_int err > max_error then Continue s1
                                           else let s2 = s1\<lparr>stats_solve_success :=
                                                              Suc (stats_solve_success s1)\<rparr>
                                             in if elapsed / 20 < real_of_int err / max_error
                                                then Continue s2
                                                else Accept
                                                  \<lparr>res_ecef = ecef, res_ecef_cov = ecef_cov,
                                                   res_var_est = var_est, res_error = err,
                                                   res_distinct = distinct_n, res_dof = dof,
                                                   res_cluster_utc = cluster_utc,
                                                   res_elapsed = elapsed, res_cluster = cl',
                                                   res_altitude_error = altitude_error\<rparr>
                                                  (s2\<lparr>stats_solve_used :=
                                                        Suc (stats_solve_used s2)\<rparr>)))))"

text \<open>
  The loop itself. The list holds the clusters in the order in which \<open>clusters.pop()\<close>
  takes them.
\<close>
fun select_cluster ::
  "env \<Rightarrow> decoded \<Rightarrow> aircraft \<Rightarrow> real option \<Rightarrow> int \<Rightarrow> vec3 option \<Rightarrow> int \<Rightarrow> real
     \<Rightarrow> cluster list \<Rightarrow> MlatTracker \<Rightarrow> loop_result" where
  "select_cluster E d ac alt altitude_dof lr_position lr_dof lr_time [] s = Exhausted s"
| "select_cluster E d ac alt altitude_dof lr_position lr_dof lr_time (c # rest) s =
     (case try_cluster E d ac alt altitude_dof lr_position lr_dof lr_time c s of
        Continue s' \<Rightarrow> select_cluster E d ac alt altitude_dof lr_position lr_dof lr_time rest s'
      | Accept r s' \<Rightarrow> Accepted r s'
      | Abort s' \<Rightarrow> Aborted s'
      | Fail e s' \<Rightarrow> LoopRaised e s')"

text \<open>Lines 353 to 385: the accepted result updates the aircraft and is dispatched.\<close>
definition accept_result ::
  "env \<Rightarrow> MessageGroup \<Rightarrow> nat \<Rightarrow> real option \<Rightarrow> accepted \<Rightarrow> aircraft \<times> MlatTracker
     \<Rightarrow> (unit, aircraft \<times> MlatTracker) flow" where
  "accept_result E grp addr alt r p =
     (let ac1 = (fst p)\<lparr>last_result_position := Some (res_ecef r),
                         last_result_var := res_var_est r,
                         last_result_dof := res_dof r,
                         last_result_time := Some (res_cluster_utc r),
                         mlat_result_count := Suc (mlat_result_count (fst p))\<rparr>;
          s = snd p
      in case (case alt of
                 Some a \<Rightarrow>
                   (case ecef2llh E (res_ecef r) of
                      (lat, lon, _) \<Rightarrow>
                        let ecef = llh2ecef E (lat, lon, a)
                        in Inr (ecef,
                                kalman_update E (res_cluster_utc r) (res_cluster r) a
                                  (res_altitude_error r) ecef (res_ecef_cov r)
                                  (res_distinct r) (res_dof r)))
               | None \<Rightarrow>
                   (case ecef2llh E (res_ecef r) of
                      (_, _, solved_alt) \<Rightarrow>
                        if res_dof r + 1 < 0 then Inl ValueError
                        else if res_dof r + 1 = 0 then Inl ZeroDivisionError
                        else Inr (res_ecef r,
                                  kalman_update E (res_cluster_utc r) (res_cluster r) solved_alt
                                    (Some (4000 / sqrt (real_of_int (res_dof r + 1))))
                                    (res_ecef r) (res_ecef_cov r) (res_distinct r) (res_dof r)))) of
           Inl e \<Rightarrow> Exc e (ac1, s)
         | Inr (ecef, kalman_ok) \<Rightarrow>
             let ac2 = (if kalman_ok
                        then ac1\<lparr>mlat_kalman_count := Suc (mlat_kalman_count ac1)\<rparr> else ac1);
                 s1 = s\<lparr>outputs := outputs s @
                          [\<lparr>out_time = res_cluster_utc r, out_address = addr, out_ecef = ecef,
                            out_ecef_cov = res_ecef_cov r,
                            out_receivers = map fst (res_cluster r),
                            out_distinct = res_distinct r, out_dof = res_dof r,
                            out_error = res_error r\<rparr>]\<rparr>;
                 s2 = s1\<lparr>forwarded := forwarded s1 @
                           [\<lparr>fwd_time = res_cluster_utc r, fwd_address = addr, fwd_ecef = ecef,
                             fwd_ecef_cov = res_ecef_cov r, fwd_receivers = receivers grp,
                             fwd_distinct = res_distinct r, fwd_dof = res_dof r,
                             fwd_error = res_error r\<rparr>]\<rparr>
             in Next () (ac2, s2))"

text \<open>Lines 259 to 351: clustering, and the selection of a cluster.\<close>
definition resolve_clusters ::
  "env \<Rightarrow> MessageGroup \<Rightarrow> decoded \<Rightarrow> nat \<Rightarrow> real option \<Rightarrow> int \<Rightarrow> vec3 option \<Rightarrow> int \<Rightarrow> real
     \<Rightarrow> component list \<Rightarrow> aircraft \<times> MlatTracker \<Rightarrow> (unit, aircraft \<times> MlatTracker) flow" where
  "resolve_clusters E grp d addr alt altitude_dof lr_position lr_dof lr_time components p =
     (case collect_clusters (receiver_objs E) (4 - altitude_dof) components [] of
        Inl e \<Rightarrow> Exc e p
      | Inr clusters \<Rightarrow>
          if clusters = [] then Ret p
          else (case select_cluster E d (fst p) alt altitude_dof lr_position lr_dof lr_time
                       (rev (sort_key (\<lambda>x. (fst x, fst (snd x))) clusters)) (snd p) of
                  Aborted s \<Rightarrow> Ret (fst p, s)
                | Exhausted s \<Rightarrow> Ret (fst p, s)
                | LoopRaised e s \<Rightarrow> Exc e (fst p, s)
                | Accepted r s \<Rightarrow> accept_result E grp addr alt r (fst p, s)))"

text \<open>Lines 214 to 257: the altitude constraint, the gates on the degrees of freedom, and
  the clock normalization.\<close>
definition resolve_dof ::
  "config \<Rightarrow> env \<Rightarrow> MessageGroup \<Rightarrow> decoded \<Rightarrow> nat \<Rightarrow> vec3 option \<Rightarrow> int \<Rightarrow> real \<Rightarrow> real
     \<Rightarrow> aircraft \<times> MlatTracker \<Rightarrow> (unit, aircraft \<times> MlatTracker) flow" where
  "resolve_dof c E grp d addr lr_position lr_dof lr_time elapsed p =
     (case altitude_constraint c (first_seen grp) (fst p) of
        Inl e \<Rightarrow> Exc e p
      | Inr (alt, altitude_dof) \<Rightarrow>
          let max_dof = int (length (copies grp)) + altitude_dof - 4
          in if max_dof < 0 then Ret p
             else if elapsed < 2 * RESOLVE_BACKOFF c
                     \<and> real_of_int max_dof < real_of_int lr_dof - elapsed + 0.5
             then Ret p
             else let tm = build_timestamp_map (copies grp);
                      dof = int (length tm) + altitude_dof - 4
               in if dof < 0 then Ret p
                  else if elapsed < 2 * RESOLVE_BACKOFF c
                          \<and> real_of_int dof < real_of_int lr_dof - elapsed + 0.5
                  then Ret p
                  else let s1 = (snd p)\<lparr>stats_normalize := Suc (stats_normalize (snd p))\<rparr>
                    in (case normalize2 E tm of
                          None \<Rightarrow> Ret (fst p, s1)
                        | Some components \<Rightarrow>
                            resolve_clusters E grp d addr alt altitude_dof
                              lr_position lr_dof lr_time components (fst p, s1)))"

text \<open>Lines 184 to 212: squawk and callsign, the rate gate, the old result and the
  back-off.\<close>
definition resolve_gates ::
  "config \<Rightarrow> env \<Rightarrow> real \<Rightarrow> MessageGroup \<Rightarrow> decoded \<Rightarrow> nat \<Rightarrow> aircraft \<times> MlatTracker
     \<Rightarrow> (unit, aircraft \<times> MlatTracker) flow" where
  "resolve_gates c E now grp d addr p =
     (let ac1 = (case decoded_squawk d of
                   None \<Rightarrow> fst p | Some sq \<Rightarrow> (fst p)\<lparr>squawk := Some sq\<rparr>);
          ac2 = (case decoded_callsign d of
                   None \<Rightarrow> ac1 | Some cs \<Rightarrow> ac1\<lparr>callsign := Some cs\<rparr>);
          s = snd p;
          fs = first_seen grp
      in if now - last_resolve_attempt ac2 < RESOLVE_INTERVAL c then Ret (ac2, s)
         else let ac = ac2\<lparr>last_resolve_attempt := now\<rparr> in
           (case prior_result fs ac of
              Inl e \<Rightarrow> Exc e (ac, s)
            | Inr (lr_position, lr_var, lr_dof, lr_time) \<Rightarrow>
                let elapsed = (if fs - lr_time < 0 then 0 else fs - lr_time)
                in if elapsed < RESOLVE_BACKOFF c then Ret (ac, s)
                   else resolve_dof c E grp d addr lr_position lr_dof lr_time elapsed (ac, s)))"

text \<open>
  \<open>_resolve(group)\<close>, called with the reference \<open>g\<close> of the group and the reading \<open>now\<close>
  of the clock. The result holds the state after the call, whether it returned or
  raised.
\<close>
definition resolve :: "config \<Rightarrow> env \<Rightarrow> real \<Rightarrow> nat \<Rightarrow> MlatTracker \<Rightarrow> MlatTracker outcome" where
  "resolve c E now g s0 =
     (let grp = group_heap s0 g in
      case pending s0 (message grp) of
        None \<Rightarrow> Raised KeyError s0
      | Some _ \<Rightarrow>
          let s1 = s0\<lparr>pending := (pending s0)(message grp := None)\<rparr>
          in if length (copies grp) < 3 then Returned s1
             else (case decode E (message grp) of
                     None \<Rightarrow> Returned s1
                   | Some d \<Rightarrow>
                       (case address d of
                          None \<Rightarrow> Returned s1
                        | Some addr \<Rightarrow>
                            if addr = 0 then Returned s1
                            else (case aircraft s1 addr of
                                    None \<Rightarrow> Returned s1
                                  | Some ac0 \<Rightarrow>
                                      let ac1 = ac0\<lparr>seen := now,
                                                    mlat_message_count :=
                                                      Suc (mlat_message_count ac0)\<rparr>;
                                          s2 = s1\<lparr>stats_valid_groups :=
                                                   Suc (stats_valid_groups s1)\<rparr>
                                      in if \<not> allow_mlat ac1
                                         then Returned (store_ac addr (ac1, s2))
                                         else (case (case update_altitude d (first_seen grp) (ac1, s2) of
                                                       Next _ p \<Rightarrow> resolve_gates c E now grp d addr p
                                                     | Ret p \<Rightarrow> Ret p
                                                     | Exc e p \<Rightarrow> Exc e p) of
                                                 Next _ p \<Rightarrow> Returned (store_ac addr p)
                                               | Ret p \<Rightarrow> Returned (store_ac addr p)
                                               | Exc e p \<Rightarrow> Raised e (store_ac addr p))))))"

subsection \<open>The tracker as a transition system\<close>

text \<open>
  The tracker starts with an empty pending map, one cohort created at the time of
  construction, and the blacklist read from the file. An event is a call of \<open>receiver_mlat\<close>, a call of \<open>_resolve\<close> on a group,
  or a reload of the blacklist.
\<close>
definition init_tracker ::
  "real \<Rightarrow> string option \<Rightarrow> filesystem \<Rightarrow> (nat \<rightharpoonup> aircraft) \<Rightarrow> MlatTracker" where
  "init_tracker t0 filename fs acs =
     read_blacklist fs
     \<lparr>pending = Map.empty, cohort = 0,
      group_heap = (\<lambda>_. new_MessageGroup [] 0), next_group = 0,
      cohort_heap = (\<lambda>_. new_Cohort t0), next_cohort = 1,
      blacklist_filename = filename, blacklist = {},
      aircraft = acs, hist_heap = (\<lambda>_. []), next_hist = 0,
      stats_mlat_msgs = 0, stats_valid_groups = 0, stats_normalize = 0,
      stats_solve_attempt = 0, stats_solve_success = 0, stats_solve_used = 0,
      outputs = [], forwarded = []\<rparr>"

datatype event =
  ReceiverMlat receiver real message real
| Resolve env real nat
| ReadBlacklist filesystem

fun step :: "config \<Rightarrow> MlatTracker \<Rightarrow> event \<Rightarrow> MlatTracker" where
  "step c s (ReceiverMlat rcv timestamp msg now) = receiver_mlat c rcv timestamp msg now s"
| "step c s (Resolve E now g) = state_of (resolve c E now g s)"
| "step c s (ReadBlacklist fs) = read_blacklist fs s"

definition run :: "config \<Rightarrow> MlatTracker \<Rightarrow> event list \<Rightarrow> MlatTracker" where
  "run c s evs = foldl (step c) s evs"

section \<open>Properties\<close>

subsection \<open>Predicates used in the statements\<close>

definition pair_ok :: "receiver_table \<Rightarrow> member \<Rightarrow> member \<Rightarrow> bool" where
  "pair_ok R a b \<longleftrightarrow>
     fst a \<noteq> fst b \<and>
     \<bar>member_ts a - member_ts b\<bar> \<le> (distance (R (fst a)) (uid (R (fst b))) * 1.05 + 1000) / Cair"

fun consistent :: "receiver_table \<Rightarrow> member list \<Rightarrow> bool" where
  "consistent R [] = True"
| "consistent R (m # ms) = ((\<forall>other\<in>set ms. pair_ok R m other) \<and> consistent R ms)"

definition in_window :: "real \<Rightarrow> member list \<Rightarrow> bool" where
  "in_window lt cl \<longleftrightarrow> (\<forall>m\<in>set cl. lt - member_ts m \<le> 2 / 1000 \<and> member_ts m \<le> lt)"

definition good_cluster :: "receiver_table \<Rightarrow> int \<Rightarrow> cluster \<Rightarrow> bool" where
  "good_cluster R min_receivers c \<longleftrightarrow>
     (case c of (dn, fs, cl) \<Rightarrow>
        consistent R cl \<and>
        (\<forall>a\<in>set cl. \<forall>b\<in>set cl. \<bar>member_ts a - member_ts b\<bar> \<le> 2 / 1000) \<and>
        min_receivers \<le> int dn)"

text \<open>The state in which a stage, a pass of the loop, or the loop ends.\<close>
fun flow_state :: "('v, 's) flow \<Rightarrow> 's" where
  "flow_state (Next v s) = s"
| "flow_state (Ret s) = s"
| "flow_state (Exc e s) = s"

fun attempt_state :: "attempt \<Rightarrow> MlatTracker" where
  "attempt_state (Continue s) = s"
| "attempt_state (Accept r s) = s"
| "attempt_state (Abort s) = s"
| "attempt_state (Fail e s) = s"

fun loop_state :: "loop_result \<Rightarrow> MlatTracker" where
  "loop_state (Accepted r s) = s"
| "loop_state (Exhausted s) = s"
| "loop_state (Aborted s) = s"
| "loop_state (LoopRaised e s) = s"

text \<open>The invariant of a group: the copy cap, and every receiver of a copy is remembered.\<close>
definition group_inv :: "config \<Rightarrow> MessageGroup \<Rightarrow> bool" where
  "group_inv c grp \<longleftrightarrow>
     int (length (copies grp)) \<le> MAX_GROUP c + 1 \<and> fst ` set (copies grp) \<subseteq> receivers grp"

text \<open>The parts of the state that only \<open>receiver_mlat\<close>, \<open>read_blacklist\<close> and the first line
  of \<open>_resolve\<close> write.\<close>
definition same_groups :: "MlatTracker \<Rightarrow> MlatTracker \<Rightarrow> bool" where
  "same_groups s s' \<longleftrightarrow>
     group_heap s' = group_heap s \<and> next_group s' = next_group s \<and>
     cohort_heap s' = cohort_heap s \<and> next_cohort s' = next_cohort s \<and>
     cohort s' = cohort s \<and> pending s' = pending s \<and> blacklist s' = blacklist s \<and>
     blacklist_filename s' = blacklist_filename s"

text \<open>The last result of an aircraft is untouched.\<close>
definition same_result :: "aircraft \<Rightarrow> aircraft \<Rightarrow> bool" where
  "same_result ac ac' \<longleftrightarrow>
     last_result_position ac' = last_result_position ac \<and>
     last_result_time ac' = last_result_time ac \<and>
     last_result_dof ac' = last_result_dof ac \<and>
     last_result_var ac' = last_result_var ac \<and>
     mlat_result_count ac' = mlat_result_count ac"

definition only_stats :: "MlatTracker \<Rightarrow> MlatTracker \<Rightarrow> bool" where
  "only_stats s s' \<longleftrightarrow>
     s' = s\<lparr>stats_solve_attempt := stats_solve_attempt s',
            stats_solve_success := stats_solve_success s',
            stats_solve_used := stats_solve_used s'\<rparr>"

definition same_tables :: "MlatTracker \<Rightarrow> MlatTracker \<Rightarrow> bool" where
  "same_tables s s' \<longleftrightarrow> same_groups s s' \<and> aircraft s' = aircraft s"

definition result_wf :: "aircraft \<Rightarrow> bool" where
  "result_wf ac \<longleftrightarrow> (last_result_position ac = None \<longrightarrow> last_result_time ac = None)"

definition time_le :: "real option \<Rightarrow> real option \<Rightarrow> bool" where
  "time_le a b \<longleftrightarrow>
     (case a of None \<Rightarrow> True | Some t \<Rightarrow> (case b of None \<Rightarrow> False | Some t' \<Rightarrow> t \<le> t'))"

definition ac_mono :: "aircraft \<Rightarrow> aircraft \<Rightarrow> bool" where
  "ac_mono ac ac' \<longleftrightarrow>
     (result_wf ac \<longrightarrow> result_wf ac' \<and> time_le (last_result_time ac) (last_result_time ac'))"

definition result_step :: "real \<Rightarrow> aircraft \<Rightarrow> aircraft \<Rightarrow> bool" where
  "result_step lrt ac ac' \<longleftrightarrow>
     same_result ac ac' \<or>
     (\<exists>utc. lrt \<le> utc \<and> last_result_time ac' = Some utc \<and> last_result_position ac' \<noteq> None)"

definition gate_ac :: "real \<Rightarrow> decoded \<Rightarrow> aircraft \<Rightarrow> aircraft" where
  "gate_ac now d ac0 =
     (let ac1 = (case decoded_squawk d of None \<Rightarrow> ac0 | Some sq \<Rightarrow> ac0\<lparr>squawk := Some sq\<rparr>);
          ac2 = (case decoded_callsign d of None \<Rightarrow> ac1 | Some cs \<Rightarrow> ac1\<lparr>callsign := Some cs\<rparr>)
      in ac2)"

definition resolved_from :: "MlatTracker \<Rightarrow> message \<Rightarrow> MlatTracker \<Rightarrow> bool" where
  "resolved_from s m s' \<longleftrightarrow>
     group_heap s' = group_heap s \<and> next_group s' = next_group s \<and>
     cohort_heap s' = cohort_heap s \<and> next_cohort s' = next_cohort s \<and>
     cohort s' = cohort s \<and> blacklist s' = blacklist s \<and>
     blacklist_filename s' = blacklist_filename s \<and>
     pending s' = (pending s)(m := None) \<and>
     (aircraft s' = aircraft s \<or>
      (\<exists>addr ac0 ac'. aircraft s addr = Some ac0 \<and> ac_mono ac0 ac' \<and>
                       aircraft s' = (aircraft s)(addr \<mapsto> ac')))"

subsection \<open>Concrete inputs\<close>

text \<open>Three receivers 5 km apart from one another, and a component in which each of them
  reports one timestamp, 10 microseconds apart.\<close>
definition R5km :: receiver_table where
  "R5km r = \<lparr>uid = r, position = (0, 0, 0), distance = (\<lambda>u. 5000)\<rparr>"

definition component3 :: component where
  "component3 = [(1, 1 / 10 ^ 12, [(10, 100)]),
                 (2, 1 / 10 ^ 12, [(10 + 1 / 10 ^ 5, 100 + 1 / 10)]),
                 (3, 1 / 10 ^ 12, [(10 + 2 / 10 ^ 5, 100 + 2 / 10)])]"

definition members3 :: "member list" where
  "members3 = [(1, 10, 1 / 10 ^ 12), (2, 10 + 1 / 10 ^ 5, 1 / 10 ^ 12),
               (3, 10 + 2 / 10 ^ 5, 1 / 10 ^ 12)]"

text \<open>A configuration with a copy cap of 1, a tracker just constructed, and two copies of
  one message.\<close>
definition cfg_cap1 :: config where
  "cfg_cap1 = \<lparr>MLAT_DELAY = 0.2, MAX_GROUP = 1, RESOLVE_INTERVAL = 0.1, RESOLVE_BACKOFF = 0.5,
               MIN_ALT = - 1500, MAX_ALT = 75000\<rparr>"

definition two_copies :: "event list" where
  "two_copies = [ReceiverMlat 1 10 ''m'' 100, ReceiverMlat 2 10 ''m'' 100]"

definition fresh_tracker :: MlatTracker where
  "fresh_tracker = init_tracker 0 None (\<lambda>_. None) Map.empty"

text \<open>An observation \<open>(receiver, timestamp, message, now)\<close> as an event, and the \<open>n\<close>
  first copies of \<open>n\<close> distinct messages, all received at time 0.\<close>
definition observe :: "receiver \<times> real \<times> message \<times> real \<Rightarrow> event" where
  "observe ob = (case ob of (rcv, timestamp, msg, now) \<Rightarrow> ReceiverMlat rcv timestamp msg now)"

definition ob_message :: "receiver \<times> real \<times> message \<times> real \<Rightarrow> message" where
  "ob_message ob = fst (snd (snd ob))"

definition ob_now :: "receiver \<times> real \<times> message \<times> real \<Rightarrow> real" where
  "ob_now ob = snd (snd (snd ob))"

definition nth_message :: "nat \<Rightarrow> message" where
  "nth_message i = replicate (Suc i) (CHR ''m'')"

definition first_copies :: "nat \<Rightarrow> (receiver \<times> real \<times> message \<times> real) list" where
  "first_copies n = map (\<lambda>i. (1, 10, nth_message i, 0)) [0..<n]"

text \<open>The time of the last result of the aircraft with address \<open>a\<close>, if any.\<close>
definition result_time_of :: "MlatTracker \<Rightarrow> nat \<Rightarrow> real option" where
  "result_time_of s a = (case aircraft s a of None \<Rightarrow> None | Some ac \<Rightarrow> last_result_time ac)"

text \<open>Every aircraft of the table that has no last position has no last result time.\<close>
definition results_wf :: "MlatTracker \<Rightarrow> bool" where
  "results_wf s \<longleftrightarrow> (\<forall>a ac. aircraft s a = Some ac \<longrightarrow> result_wf ac)"

text \<open>A covariance with trace \<open>v\<close>; an environment whose decoder finds aircraft 1 with no
  altitude, whose clock tracker puts all receivers in one component, and whose solver
  returns a covariance with trace \<open>v\<close>; a configuration; an aircraft with a result at
  time 90; four copies of one message at time 100 and their resolution.\<close>
definition cov_of :: "real \<Rightarrow> mat3" where
  "cov_of v = ((v, 0, 0), (0, 0, 0), (0, 0, 0))"

definition decoded_plain :: decoded where
  "decoded_plain = \<lparr>address = Some 1, decoded_altitude = None, decoded_squawk = None,
                    decoded_callsign = None\<rparr>"

definition test_env :: "real \<Rightarrow> env" where
  "test_env v =
     \<lparr>receiver_objs = R5km,
      decode = (\<lambda>m. Some decoded_plain),
      normalize2 = (\<lambda>tm. Some [map (\<lambda>(rcv, ts). (rcv, 1 / 10 ^ 12, ts)) tm]),
      solve = (\<lambda>cl alt err guess. Some ((1, 2, 3), Some (cov_of v))),
      ecef2llh = (\<lambda>x. x),
      llh2ecef = (\<lambda>x. x),
      kalman_update = (\<lambda>utc cl alt err ecef cov dn dof. True)\<rparr>"

definition cfg_std :: config where
  "cfg_std = \<lparr>MLAT_DELAY = 0.2, MAX_GROUP = 40, RESOLVE_INTERVAL = 0.1, RESOLVE_BACKOFF = 0.5,
              MIN_ALT = - 1500, MAX_ALT = 75000\<rparr>"

definition aircraft_prior :: aircraft where
  "aircraft_prior =
     \<lparr>icao = 1, allow_mlat = True, seen = 0, mlat_message_count = 0, mlat_result_count = 0,
      mlat_kalman_count = 0, altitude = None, last_altitude_time = None, alt_history = 0,
      vrate = None, vrate_time = None, squawk = None, callsign = None,
      last_resolve_attempt = 0, last_result_position = Some (0, 0, 0), last_result_var = 1,
      last_result_dof = 0, last_result_time = Some 90\<rparr>"

definition tracker_one :: MlatTracker where
  "tracker_one = init_tracker 0 None (\<lambda>_. None) [1 \<mapsto> aircraft_prior]"

definition four_copies :: "event list" where
  "four_copies = [ReceiverMlat 1 10 ''m'' 100,
                  ReceiverMlat 2 (10 + 5 / 10 ^ 6) ''m'' 100,
                  ReceiverMlat 3 (10 + 10 / 10 ^ 6) ''m'' 100,
                  ReceiverMlat 4 (10 + 15 / 10 ^ 6) ''m'' 100]"

definition members4 :: "member list" where
  "members4 = [(1, 10, 1 / 10 ^ 12), (2, 10 + 5 / 10 ^ 6, 1 / 10 ^ 12),
               (3, 10 + 10 / 10 ^ 6, 1 / 10 ^ 12), (4, 10 + 15 / 10 ^ 6, 1 / 10 ^ 12)]"

definition component4 :: component where
  "component4 = [(1, 1 / 10 ^ 12, [(10, 100)]), (2, 1 / 10 ^ 12, [(10 + 5 / 10 ^ 6, 100)]),
                 (3, 1 / 10 ^ 12, [(10 + 10 / 10 ^ 6, 100)]),
                 (4, 1 / 10 ^ 12, [(10 + 15 / 10 ^ 6, 100)])]"

definition group4 :: MessageGroup where
  "group4 = \<lparr>message = ''m'', first_seen = 100,
             copies = [(1, 10, 100), (2, 10 + 5 / 10 ^ 6, 100), (3, 10 + 10 / 10 ^ 6, 100),
                       (4, 10 + 15 / 10 ^ 6, 100)],
             receivers = {1, 2, 3, 4}\<rparr>"

text \<open>The local variables when the solver's result with an error of 5 km is accepted 15 s
  after the last result, and with an error of 10000.5 m, 20 s after it.\<close>
definition accepted_5km :: accepted where
  "accepted_5km =
     \<lparr>res_ecef = (1, 2, 3), res_ecef_cov = cov_of 25000000, res_var_est = 25000000,
      res_error = 5000, res_distinct = 4, res_dof = 0, res_cluster_utc = 100,
      res_elapsed = 15, res_cluster = members4, res_altitude_error = None\<rparr>"

definition accepted_over_10km :: accepted where
  "accepted_over_10km =
     \<lparr>res_ecef = (1, 2, 3), res_ecef_cov = cov_of (100010000 + 1 / 4),
      res_var_est = 100010000 + 1 / 4,
      res_error = 10000, res_distinct = 4, res_dof = 0, res_cluster_utc = 100,
      res_elapsed = 20, res_cluster = members4, res_altitude_error = None\<rparr>"

definition solved_once :: "MlatTracker \<Rightarrow> MlatTracker" where
  "solved_once s = s\<lparr>stats_solve_attempt := Suc (stats_solve_attempt s),
                     stats_solve_success := Suc (stats_solve_success s),
                     stats_solve_used := Suc (stats_solve_used s)\<rparr>"

text \<open>
  The words of the specification: the lines of a text, the first non-empty line
  (stripped), and the blacklist it asks for.
\<close>
fun spec_lines :: "string \<Rightarrow> string \<Rightarrow> string list" where
  "spec_lines cur [] = (if cur = [] then [] else [cur])"
| "spec_lines cur (c # cs) =
     (if c = LF \<or> c = CR then cur # spec_lines [] cs else spec_lines (cur @ [c]) cs)"

definition spec_first_nonempty_line :: "string \<Rightarrow> string option" where
  "spec_first_nonempty_line contents = find (\<lambda>l. l \<noteq> []) (map strip (spec_lines [] contents))"

definition spec_blacklist :: "string option \<Rightarrow> string set" where
  "spec_blacklist file =
     (case file of
        None \<Rightarrow> {}
      | Some contents \<Rightarrow> (case spec_first_nonempty_line contents of None \<Rightarrow> {} | Some u \<Rightarrow> {u}))"

text \<open>The first line of a text, without its ending.\<close>
definition first_line :: "string \<Rightarrow> string" where
  "first_line contents = takeWhile (\<lambda>c. c \<noteq> LF \<and> c \<noteq> CR) contents"

text \<open>A tracker whose blacklist file is \<open>bl\<close>, and two files.\<close>
definition tracker_bl :: MlatTracker where
  "tracker_bl = init_tracker 0 (Some ''bl'') (\<lambda>_. None) Map.empty"

definition file_blank_then_bob :: filesystem where
  "file_blank_then_bob name = (if name = ''bl'' then Some (LF # ''bob'' @ [LF]) else None)"

definition file_alice_bob :: filesystem where
  "file_alice_bob name =
     (if name = ''bl'' then Some (''  alice '' @ [LF] @ ''bob'' @ [LF]) else None)"

text \<open>A decoded message that carries an altitude of 30000 ft.\<close>
definition decoded_30000 :: decoded where
  "decoded_30000 = \<lparr>address = Some 1, decoded_altitude = Some 30000, decoded_squawk = None,
                    decoded_callsign = None\<rparr>"

text \<open>A tracker in which the history of the aircraft is the list object 0, holding one
  sample that is 30 s old at time 100; and the result of recording 30000 ft at time 100.\<close>
definition tracker_hist :: MlatTracker where
  "tracker_hist = tracker_one\<lparr>hist_heap := (\<lambda>_. [])(0 := [(70, 29000)]), next_hist := 1\<rparr>"

definition recorded :: "nat \<times> aircraft \<times> MlatTracker" where
  "recorded = record_altitude 30000 100 (aircraft_prior, tracker_hist)"

text \<open>From \<open>h\<close> to \<open>h'\<close> nothing is freed, and every object that exists in \<open>h\<close> and is not in
  \<open>S\<close> is the same in \<open>h'\<close>.\<close>
definition modifies :: "nat set \<Rightarrow> pyheap \<Rightarrow> pyheap \<Rightarrow> bool" where
  "modifies S h h' \<longleftrightarrow> free h \<le> free h' \<and> (\<forall>a. a < free h \<and> a \<notin> S \<longrightarrow> cells h' a = cells h a)"

text \<open>What the heap holds: the timestamps of a list object, the component as the value that
  the dictionary and its lists represent, the clusters of a list of clusters, and the
  result of a call as a value.\<close>
definition stamps_at :: "pyheap \<Rightarrow> nat \<Rightarrow> (real \<times> real) list" where
  "stamps_at h r = (case cells h r of StampList ts \<Rightarrow> ts | _ \<Rightarrow> [])"

definition entries_value :: "pyheap \<Rightarrow> (receiver \<times> real \<times> nat) list \<Rightarrow> component" where
  "entries_value h es = map (\<lambda>(rcv, variance, r). (rcv, variance, stamps_at h r)) es"

definition component_at :: "pyheap \<Rightarrow> nat \<Rightarrow> component" where
  "component_at h c = (case cells h c of Component es \<Rightarrow> entries_value h es | _ \<Rightarrow> [])"

definition clusters_value :: "pyheap \<Rightarrow> nat \<Rightarrow> cluster list" where
  "clusters_value h r = map (\<lambda>(dn, fs, cl). (dn, fs, members_at h cl)) (clusters_at h r)"

fun result_value :: "nat hres \<Rightarrow> error + cluster list" where
  "result_value (Ok r h) = Inr (clusters_value h r)"
| "result_value (Err e h) = Inl e"

text \<open>The component is a dictionary object of the heap whose values refer to lists of
  timestamps of the heap.\<close>
definition wf_component :: "pyheap \<Rightarrow> nat \<Rightarrow> bool" where
  "wf_component h c \<longleftrightarrow>
     c < free h \<and>
     (\<exists>es. cells h c = Component es \<and>
           (\<forall>e\<in>set es. snd (snd e) < free h \<and> (\<exists>ts. cells h (snd (snd e)) = StampList ts)))"

text \<open>The list \<open>groups\<close> and its groups are distinct objects that exist.\<close>
definition groups_ok :: "pyheap \<Rightarrow> nat \<Rightarrow> bool" where
  "groups_ok h grps \<longleftrightarrow>
     grps < free h \<and> distinct (groups_at h grps) \<and> grps \<notin> set (groups_at h grps) \<and>
     (\<forall>g\<in>set (groups_at h grps). g < free h)"

text \<open>The list \<open>clusters\<close> exists, is none of the groups \<open>G\<close>, and the clusters it refers to
  exist and are neither a group nor the list itself.\<close>
definition clusters_ok :: "pyheap \<Rightarrow> nat \<Rightarrow> nat set \<Rightarrow> bool" where
  "clusters_ok h clusters G \<longleftrightarrow>
     clusters < free h \<and> clusters \<notin> G \<and> (\<forall>g\<in>G. g < free h) \<and>
     (\<exists>cs. cells h clusters = ClusterList cs \<and>
           (\<forall>e\<in>set cs. snd (snd e) < free h \<and> snd (snd e) \<notin> G \<and> snd (snd e) \<noteq> clusters))"

text \<open>The result of a loop on the heap as a value: the clusters gathered, or the error.\<close>
fun loop_value :: "nat \<Rightarrow> unit hres \<Rightarrow> error + cluster list" where
  "loop_value clusters (Ok u h) = Inr (clusters_value h clusters)"
| "loop_value clusters (Err e h) = Inl e"

text \<open>A heap that holds the component \<open>component3\<close>: three lists of timestamps and the
  dictionary.\<close>
definition heap3 :: pyheap where
  "heap3 = \<lparr>cells = (\<lambda>_. StampList [])
              (0 := StampList [(10, 100)],
               1 := StampList [(10 + 1 / 10 ^ 5, 100 + 1 / 10)],
               2 := StampList [(10 + 2 / 10 ^ 5, 100 + 2 / 10)],
               3 := Component [(1, 1 / 10 ^ 12, 0), (2, 1 / 10 ^ 12, 1), (3, 1 / 10 ^ 12, 2)]),
            free = 4\<rparr>"

subsection \<open>The cluster engine\<close>

lemma check_candidate_ok:
  "check_candidate R rcv timestamp cl d0 = (True, d) \<Longrightarrow>
     \<forall>other\<in>set cl. pair_ok R (rcv, timestamp, variance) other"
  by (induction R rcv timestamp cl d0 rule: check_candidate.induct)
     (auto simp: pair_ok_def member_ts_def Let_def split: if_splits)

lemma form_cluster_inv:
  "consistent R (rev cl) \<Longrightarrow> in_window lt cl \<Longrightarrow> \<forall>t\<in>set todo. item_ts t \<le> lt \<Longrightarrow>
   consistent R (rev (fst (form_cluster R lt todo cl fs dn kept))) \<and>
   in_window lt (fst (form_cluster R lt todo cl fs dn kept))"
proof (induction R lt todo cl fs dn kept rule: form_cluster.induct)
  case (1 R last_timestamp cl fs dn kept)
  then show ?case by simp
next
  case (2 R last_timestamp rcv timestamp variance utc todo cl fs dn kept)
  show ?case
  proof (cases "last_timestamp - timestamp > 2 / 1000")
    case True
    with 2 show ?thesis by simp
  next
    case False
    obtain can_cluster is_distinct
      where chk: "check_candidate R rcv timestamp cl True = (can_cluster, is_distinct)"
      by (cases "check_candidate R rcv timestamp cl True")
    have todo: "\<forall>t\<in>set todo. item_ts t \<le> last_timestamp"
      using 2(5) by simp
    have ts: "timestamp \<le> last_timestamp"
      using 2(5) by (simp add: item_ts_def)
    show ?thesis
    proof (cases can_cluster)
      case True
      have "consistent R (rev (cl @ [(rcv, timestamp, variance)]))"
        using check_candidate_ok [of R rcv timestamp cl True is_distinct variance] chk True 2(3)
        by simp
      moreover have "in_window last_timestamp (cl @ [(rcv, timestamp, variance)])"
        using 2(4) False ts by (simp add: in_window_def member_ts_def)
      ultimately show ?thesis
        using 2(1) [OF False chk [symmetric] True _ _ todo] False chk True by simp
    next
      case nc: False
      show ?thesis
        using 2(2) [OF False chk [symmetric] nc 2(3) 2(4) todo] False chk nc by simp
    qed
  qed
qed

lemma sorted_drop_middle:
  "sorted (map f (xs @ x # ys)) \<Longrightarrow> sorted (map f (xs @ ys))"
  by (auto simp: sorted_append)

lemma form_cluster_sorted:
  "sorted (map item_ts (rev todo @ kept)) \<Longrightarrow>
   sorted (map item_ts (group_left (form_cluster R lt todo cl fs dn kept)))"
proof (induction R lt todo cl fs dn kept rule: form_cluster.induct)
  case (1 R last_timestamp cl fs dn kept)
  then show ?case by (simp add: group_left_def)
next
  case (2 R last_timestamp rcv timestamp variance utc todo cl fs dn kept)
  show ?case
  proof (cases "last_timestamp - timestamp > 2 / 1000")
    case True
    with 2(3) show ?thesis by (simp add: group_left_def)
  next
    case False
    obtain can_cluster is_distinct
      where chk: "check_candidate R rcv timestamp cl True = (can_cluster, is_distinct)"
      by (cases "check_candidate R rcv timestamp cl True")
    show ?thesis
    proof (cases can_cluster)
      case True
      have "sorted (map item_ts (rev todo @ kept))"
        using 2(3) sorted_drop_middle [of item_ts "rev todo" _ kept] by simp
      then show ?thesis
        using 2(1) [OF False chk [symmetric] True] False chk True by simp
    next
      case nc: False
      have "sorted (map item_ts (rev todo @ (rcv, timestamp, variance, utc) # kept))"
        using 2(3) by simp
      then show ?thesis
        using 2(2) [OF False chk [symmetric] nc] False chk nc by simp
    qed
  qed
qed

lemma in_window_spread:
  "in_window lt cl \<Longrightarrow> a \<in> set cl \<Longrightarrow> b \<in> set cl \<Longrightarrow> \<bar>member_ts a - member_ts b\<bar> \<le> 2 / 1000"
proof -
  assume w: "in_window lt cl" and a: "a \<in> set cl" and b: "b \<in> set cl"
  have "lt - member_ts a \<le> 2 / 1000" "member_ts a \<le> lt"
       "lt - member_ts b \<le> 2 / 1000" "member_ts b \<le> lt"
    using w a b by (simp_all add: in_window_def)
  then show ?thesis by linarith
qed

lemma seed_cluster_inv:
  assumes "\<forall>t\<in>set todo. item_ts t \<le> item_ts seed"
  shows "consistent R (rev (fst (seed_cluster R seed todo))) \<and>
         in_window (item_ts seed) (fst (seed_cluster R seed todo))"
proof -
  obtain rcv timestamp variance utc where seed: "seed = (rcv, timestamp, variance, utc)"
    by (cases seed)
  have "consistent R (rev [(rcv, timestamp, variance)])"
    by simp
  moreover have "in_window timestamp [(rcv, timestamp, variance)]"
    by (simp add: in_window_def member_ts_def)
  moreover have "\<forall>t\<in>set todo. item_ts t \<le> timestamp"
    using assms seed by (simp add: item_ts_def)
  ultimately show ?thesis
    using form_cluster_inv [of R "[(rcv, timestamp, variance)]" timestamp todo utc 1 "[]"] seed
    by (simp add: seed_cluster_def item_ts_def)
qed

lemma emit_cluster_good:
  assumes "\<forall>c\<in>set clusters. good_cluster R m c"
    and "consistent R (rev (fst formed))" and "in_window lt (fst formed)"
  shows "\<forall>c\<in>set (emit_cluster m formed clusters). good_cluster R m c"
proof -
  obtain cl fs dn grp where f: "formed = (cl, fs, dn, grp)"
    by (cases formed)
  have "m \<le> int dn \<Longrightarrow> good_cluster R m (dn, fs, rev cl)"
    using assms(2,3) f in_window_spread [of lt cl] by (simp add: good_cluster_def)
  then show ?thesis
    using assms(1) f by (auto simp: emit_cluster_def)
qed

lemma sorted_last_max:
  assumes "sorted (map f grp)" and "rev grp = seed # todo"
  shows "(\<forall>t\<in>set todo. f t \<le> f seed) \<and> sorted (map f (rev todo))"
proof -
  have "grp = rev todo @ [seed]"
    using assms(2) by (metis rev.simps(2) rev_rev_ident)
  then show ?thesis
    using assms(1) by (auto simp: sorted_append)
qed

lemma extract_clusters_good:
  "sorted (map item_ts grp) \<Longrightarrow> \<forall>c\<in>set clusters. good_cluster R m c \<Longrightarrow>
   extract_clusters R m grp clusters = Inr out \<Longrightarrow> \<forall>c\<in>set out. good_cluster R m c"
proof (induction R m grp clusters rule: extract_clusters.induct)
  case (1 R m grp clusters)
  show ?case
  proof (cases "m \<le> int (length grp)")
    case False
    with 1(3,4) show ?thesis
      by (simp add: extract_clusters.simps [of R m grp clusters])
  next
    case True
    show ?thesis
    proof (cases "rev grp")
      case Nil
      with True 1(4) show ?thesis
        by (simp add: extract_clusters.simps [of R m grp clusters])
    next
      case (Cons seed todo)
      let ?formed = "seed_cluster R seed todo"
      have mx: "\<forall>t\<in>set todo. item_ts t \<le> item_ts seed" and st: "sorted (map item_ts (rev todo))"
        using sorted_last_max [OF 1(2) Cons] by simp_all
      have "sorted (map item_ts (group_left ?formed))"
        using form_cluster_sorted [of todo "[]" R _ _ _ 1] st
        by (simp add: seed_cluster_def split: prod.splits)
      moreover have "\<forall>c\<in>set (emit_cluster m ?formed clusters). good_cluster R m c"
        using emit_cluster_good [OF 1(3)] seed_cluster_inv [OF mx] by blast
      moreover have "extract_clusters R m (group_left ?formed) (emit_cluster m ?formed clusters)
                       = Inr out"
        using 1(4) True Cons by (simp add: extract_clusters.simps [of R m grp clusters])
      ultimately show ?thesis
        using 1(1) [OF True Cons] by blast
    qed
  qed
qed

lemma cluster_groups_good:
  "\<forall>grp\<in>set grps. sorted (map item_ts grp) \<Longrightarrow> \<forall>c\<in>set clusters. good_cluster R m c \<Longrightarrow>
   cluster_groups R m grps clusters = Inr out \<Longrightarrow> \<forall>c\<in>set out. good_cluster R m c"
proof (induction grps arbitrary: clusters)
  case Nil
  then show ?case by simp
next
  case (Cons grp grps)
  from Cons.prems(3) obtain mid where
    mid: "extract_clusters R m grp clusters = Inr mid" and
    rest: "cluster_groups R m grps mid = Inr out"
    by (auto split: sum.splits)
  have "\<forall>c\<in>set mid. good_cluster R m c"
    using extract_clusters_good [OF _ Cons.prems(2) mid] Cons.prems(1) by simp
  then show ?case
    using Cons.IH [OF _ _ rest] Cons.prems(1) by simp
qed

lemma rough_groups_concat:
  "concat (rough_groups finished grp prev rest) = concat finished @ grp @ prev # rest"
  by (induction rest arbitrary: finished grp prev) auto

lemma sorted_concat_part:
  "sorted (map f (concat xss)) \<Longrightarrow> xs \<in> set xss \<Longrightarrow> sorted (map f xs)"
  by (induction xss) (auto simp: sorted_append)

lemma rough_groups_sorted:
  assumes "sorted (map item_ts (t0 # rest))"
  shows "\<forall>grp\<in>set (rough_groups [] [] t0 rest). sorted (map item_ts grp)"
proof
  fix grp assume "grp \<in> set (rough_groups [] [] t0 rest)"
  moreover have "sorted (map item_ts (concat (rough_groups [] [] t0 rest)))"
    using assms by (simp add: rough_groups_concat)
  ultimately show "sorted (map item_ts grp)"
    by (rule sorted_concat_part [rotated])
qed

lemma cluster_timestamps_good:
  assumes "cluster_timestamps R component m = Inr clusters"
  shows "\<forall>c\<in>set clusters. good_cluster R m c"
proof (cases "sort_key item_ts (flatten component)")
  case Nil
  with assms show ?thesis by (simp add: cluster_timestamps_def)
next
  case (Cons t0 rest)
  have "sorted (map item_ts (sort_key item_ts (flatten component)))"
    by (rule sorted_sort_key)
  then have "\<forall>grp\<in>set (rough_groups [] [] t0 rest). sorted (map item_ts grp)"
    using rough_groups_sorted Cons by simp
  moreover have "cluster_groups R m (rough_groups [] [] t0 rest) [] = Inr clusters"
    using assms Cons by (simp add: cluster_timestamps_def)
  ultimately show ?thesis
    using cluster_groups_good [of _ "[]" R m clusters] by simp
qed

lemma consistent_nth:
  "consistent R cl \<Longrightarrow> i < j \<Longrightarrow> j < length cl \<Longrightarrow> pair_ok R (cl ! i) (cl ! j)"
proof (induction cl arbitrary: i j)
  case Nil
  then show ?case by simp
next
  case (Cons m ms)
  show ?case
  proof (cases i)
    case 0
    with Cons.prems show ?thesis by (cases j) auto
  next
    case (Suc i')
    with Cons.prems obtain j' where "j = Suc j'" by (cases j) auto
    with Cons Suc show ?thesis by simp
  qed
qed

lemma consistent_distinct: "consistent R cl \<Longrightarrow> distinct (map fst cl)"
  by (induction cl) (auto simp: pair_ok_def)

lemma cluster_timestamps_component3:
  "cluster_timestamps R5km component3 3 = Inr [(3, 100, members3)]"
  by (simp add: cluster_timestamps_def flatten_def item_ts_def extract_clusters.simps
      seed_cluster_def emit_cluster_def group_left_def R5km_def component3_def members3_def
      Cair_def)

text \<open>
  C1. Every cluster \<open>(dn, fs, cl)\<close> that \<open>_cluster_timestamps\<close> returns satisfies: for any
  two of its members, the one at the smaller index \<open>i\<close> being the candidate that was
  tested against the other, the timestamps differ by at most \<open>(1.05 d + 1000) / Cair\<close>
  where \<open>d\<close> is the distance the candidate's table holds for the other receiver; no
  receiver appears twice; any two timestamps of the cluster are at most 2 ms apart; and
  the count of distinct receivers is at least \<open>min_receivers\<close>.
\<close>
theorem cluster_timestamps_clusters:
  assumes "cluster_timestamps R component min_receivers = Inr clusters"
    and "(dn, fs, cl) \<in> set clusters"
  shows "(\<forall>i j. i < j \<and> j < length cl \<longrightarrow>
            \<bar>member_ts (cl ! i) - member_ts (cl ! j)\<bar>
              \<le> (distance (R (fst (cl ! i))) (uid (R (fst (cl ! j)))) * 1.05 + 1000) / Cair)
       \<and> distinct (map fst cl)
       \<and> (\<forall>a\<in>set cl. \<forall>b\<in>set cl. \<bar>member_ts a - member_ts b\<bar> \<le> 2 / 1000)
       \<and> min_receivers \<le> int dn"
proof -
  have g: "good_cluster R min_receivers (dn, fs, cl)"
    using cluster_timestamps_good [OF assms(1)] assms(2) by blast
  then have c: "consistent R cl" by (simp add: good_cluster_def)
  have "\<forall>i j. i < j \<and> j < length cl \<longrightarrow>
            \<bar>member_ts (cl ! i) - member_ts (cl ! j)\<bar>
              \<le> (distance (R (fst (cl ! i))) (uid (R (fst (cl ! j)))) * 1.05 + 1000) / Cair"
    using consistent_nth [OF c] by (simp add: pair_ok_def)
  moreover have "distinct (map fst cl)"
    using c by (rule consistent_distinct)
  ultimately show ?thesis
    using g by (simp add: good_cluster_def)
qed

theorem cluster_timestamps_clusters_witness:
  "cluster_timestamps R5km component3 3 = Inr [(3, 100, members3)]
   \<and> \<bar>member_ts (members3 ! 0) - member_ts (members3 ! 2)\<bar>
        \<le> (distance (R5km (fst (members3 ! 0))) (uid (R5km (fst (members3 ! 2)))) * 1.05
             + 1000) / Cair
   \<and> distinct (map fst members3)
   \<and> \<bar>member_ts (members3 ! 0) - member_ts (members3 ! 2)\<bar> \<le> 2 / 1000
   \<and> (3::int) \<le> int 3"
proof -
  have m: "(3, 100, members3) \<in> set [(3, 100, members3)]"
    by simp
  note t = cluster_timestamps_clusters [OF cluster_timestamps_component3 m]
  have len: "(0::nat) < 2 \<and> 2 < length members3"
    by (simp add: members3_def)
  have mem: "members3 ! 0 \<in> set members3" "members3 ! 2 \<in> set members3"
    by (simp_all add: members3_def)
  from t len have "\<bar>member_ts (members3 ! 0) - member_ts (members3 ! 2)\<bar>
        \<le> (distance (R5km (fst (members3 ! 0))) (uid (R5km (fst (members3 ! 2)))) * 1.05
             + 1000) / Cair"
    by blast
  moreover from t have "distinct (map fst members3)"
    by blast
  moreover from t mem have "\<bar>member_ts (members3 ! 0) - member_ts (members3 ! 2)\<bar> \<le> 2 / 1000"
    by blast
  ultimately show ?thesis
    using cluster_timestamps_component3 by simp
qed

subsection \<open>The group and cohort batcher\<close>

lemma create_group_heap:
  "create_group msg now s = (g, s') \<Longrightarrow>
     g = next_group s \<and> group_heap s' = (group_heap s)(g := new_MessageGroup msg now)"
  by (auto simp: create_group_def Let_def open_cohort_def split: if_splits)

lemma receiver_mlat_group_inv:
  assumes "- 1 \<le> MAX_GROUP c" and "\<forall>g. group_inv c (group_heap s g)"
  shows "\<forall>g. group_inv c (group_heap (receiver_mlat c rcv timestamp msg now s) g)"
proof -
  let ?s1 = "s\<lparr>stats_mlat_msgs := Suc (stats_mlat_msgs s)\<rparr>"
  obtain g s2 where gs: "(case pending ?s1 msg of Some g \<Rightarrow> (g, ?s1)
                          | None \<Rightarrow> create_group msg now ?s1) = (g, s2)"
    by (cases "case pending ?s1 msg of Some g \<Rightarrow> (g, ?s1) | None \<Rightarrow> create_group msg now ?s1")
  have new: "group_inv c (new_MessageGroup msg now)"
    using assms(1) by (simp add: group_inv_def new_MessageGroup_def)
  have inv2: "\<forall>g. group_inv c (group_heap s2 g)"
  proof (cases "pending ?s1 msg")
    case None
    with gs have "create_group msg now ?s1 = (g, s2)" by simp
    from create_group_heap [OF this] assms(2) new show ?thesis by simp
  next
    case (Some a)
    with gs assms(2) show ?thesis by auto
  qed
  then have "group_inv c (group_heap s2 g)" by simp
  then have upd: "group_inv c ((group_heap s2 g)\<lparr>receivers := insert rcv (receivers (group_heap s2 g))\<rparr>)"
    by (auto simp: group_inv_def)
  have app: "\<not> int (length (copies (group_heap s2 g))) > MAX_GROUP c \<Longrightarrow>
     group_inv c ((group_heap s2 g)\<lparr>receivers := insert rcv (receivers (group_heap s2 g)),
         copies := copies (group_heap s2 g) @ [(rcv, timestamp, now)]\<rparr>)"
    using \<open>group_inv c (group_heap s2 g)\<close> by (auto simp: group_inv_def)
  show ?thesis
    using gs inv2 upd app by (auto simp: receiver_mlat_def Let_def)
qed

lemma receiver_mlat_over_cap:
  assumes "pending s msg = Some g" and "int (length (copies (group_heap s g))) > MAX_GROUP c"
  shows "copies (group_heap (receiver_mlat c rcv timestamp msg now s) g) = copies (group_heap s g)
       \<and> receivers (group_heap (receiver_mlat c rcv timestamp msg now s) g)
           = insert rcv (receivers (group_heap s g))"
  using assms by (simp add: receiver_mlat_def Let_def)

subsection \<open>The resolve pipeline: what a call changes\<close>

lemma only_stats_refl [simp]: "only_stats s s"
  by (simp add: only_stats_def)

lemma only_stats_trans: "only_stats s s' \<Longrightarrow> only_stats s' s'' \<Longrightarrow> only_stats s s''"
  by (cases s; cases s'; cases s'') (simp add: only_stats_def)

lemma try_cluster_only_stats:
  "only_stats s (attempt_state (try_cluster E d ac alt adof lrp lrd lrt c s))"
  by (cases c)
     (simp add: try_cluster_def Let_def only_stats_def
           split: sum.splits option.splits prod.splits)

lemma select_cluster_only_stats:
  "only_stats s (loop_state (select_cluster E d ac alt adof lrp lrd lrt cls s))"
proof (induction cls arbitrary: s)
  case Nil
  then show ?case by simp
next
  case (Cons c rest)
  show ?case
  proof (cases "try_cluster E d ac alt adof lrp lrd lrt c s")
    case (Continue s')
    then have "only_stats s s'"
      using try_cluster_only_stats [of s E d ac alt adof lrp lrd lrt c] by simp
    with Cons [of s'] Continue show ?thesis
      by (auto intro: only_stats_trans)
  qed (use try_cluster_only_stats [of s E d ac alt adof lrp lrd lrt c] in auto)
qed

lemma same_tables_refl [simp]: "same_tables s s"
  by (simp add: same_tables_def same_groups_def)

lemma same_tables_trans: "same_tables s s' \<Longrightarrow> same_tables s' s'' \<Longrightarrow> same_tables s s''"
  by (simp add: same_tables_def same_groups_def)

lemma only_stats_same_tables: "only_stats s s' \<Longrightarrow> same_tables s s'"
  by (cases s; cases s') (simp add: only_stats_def same_tables_def same_groups_def)

lemma same_result_refl [simp]: "same_result ac ac"
  by (simp add: same_result_def)

lemma same_result_trans: "same_result a b \<Longrightarrow> same_result b c \<Longrightarrow> same_result a c"
  by (simp add: same_result_def)

lemma time_le_refl [simp]: "time_le a a"
  by (simp add: time_le_def split: option.splits)

lemma time_le_trans: "time_le a b \<Longrightarrow> time_le b c \<Longrightarrow> time_le a c"
  by (auto simp: time_le_def split: option.splits)

lemma same_result_mono: "same_result ac ac' \<Longrightarrow> ac_mono ac ac'"
  by (simp add: same_result_def ac_mono_def result_wf_def)

lemma ac_mono_trans: "ac_mono a b \<Longrightarrow> ac_mono b c \<Longrightarrow> ac_mono a c"
  by (auto simp: ac_mono_def intro: time_le_trans)

lemma update_vrate_same_result: "update_vrate alt fs oldest ac = Inr ac' \<Longrightarrow> same_result ac ac'"
  by (auto simp: update_vrate_def Let_def same_result_def split: if_splits option.splits sum.splits)

lemma record_altitude_frame:
  "record_altitude alt fs p = (nh, ac', s') \<Longrightarrow> same_tables (snd p) s' \<and> same_result (fst p) ac'"
  by (auto simp: record_altitude_def Let_def same_tables_def same_groups_def same_result_def)

lemma update_altitude_frame:
  "same_tables (snd p) (snd (flow_state (update_altitude d fs p))) \<and>
   same_result (fst p) (fst (flow_state (update_altitude d fs p)))"
proof (cases "decoded_altitude d")
  case None
  then show ?thesis by (simp add: update_altitude_def)
next
  case (Some alt)
  show ?thesis
  proof (cases "alt > - 1500 \<and> alt < 75000 \<and> accept_altitude alt fs (fst p) = Inr True")
    case False
    with Some show ?thesis
      by (auto simp: update_altitude_def split: sum.splits bool.splits)
  next
    case True
    obtain nh ac s where ra: "record_altitude alt fs p = (nh, ac, s)"
      by (cases "record_altitude alt fs p")
    note fr = record_altitude_frame [OF ra]
    show ?thesis
      using Some True ra fr update_vrate_same_result [of alt fs _ ac]
      by (auto simp: update_altitude_def split: sum.splits intro: same_result_trans)
  qed
qed

lemma py_int_sqrt_nonneg: "0 \<le> py_int (sqrt \<bar>x\<bar>)"
  by (simp add: py_int_def)

lemma try_cluster_accept:
  assumes "try_cluster E d ac alt adof lrp lrd lrt c s = Accept r s'"
  shows "real_of_int (res_error r) \<le> max_error
       \<and> real_of_int (res_error r) / max_error \<le> res_elapsed r / 20
       \<and> res_error r = py_int (sqrt \<bar>trace (res_ecef_cov r)\<bar>)
       \<and> res_elapsed r = res_cluster_utc r - lrt
       \<and> res_cluster_utc r = fst (snd c)
       \<and> res_distinct r = fst c
       \<and> res_dof r = int (fst c) + adof - 4
       \<and> \<not> (res_elapsed r < 2 \<and> real_of_int (res_dof r) < real_of_int lrd - res_elapsed r + 0.5)"
  using assms
  by (cases c)
     (auto simp: try_cluster_def Let_def split: sum.splits option.splits prod.splits if_splits)

lemma select_cluster_accepted:
  "select_cluster E d ac alt adof lrp lrd lrt cls s = Accepted r s' \<Longrightarrow>
     \<exists>c s0 s1. c \<in> set cls \<and> try_cluster E d ac alt adof lrp lrd lrt c s0 = Accept r s1"
proof (induction cls arbitrary: s)
  case Nil
  then show ?case by simp
next
  case (Cons c rest)
  show ?case
  proof (cases "try_cluster E d ac alt adof lrp lrd lrt c s")
    case (Continue s2)
    with Cons.prems have "select_cluster E d ac alt adof lrp lrd lrt rest s2 = Accepted r s'"
      by simp
    from Cons.IH [OF this] show ?thesis by (metis list.set_intros(2))
  next
    case (Accept r2 s2)
    with Cons.prems have "try_cluster E d ac alt adof lrp lrd lrt c s = Accept r s'"
      by simp
    then show ?thesis by (metis list.set_intros(1))
  qed (use Cons.prems in auto)
qed

lemma accepted_time:
  assumes "try_cluster E d ac alt adof lrp lrd lrt c s = Accept r s'"
  shows "lrt \<le> res_cluster_utc r"
proof -
  from try_cluster_accept [OF assms]
  have a: "real_of_int (res_error r) / max_error \<le> res_elapsed r / 20"
    and b: "res_error r = py_int (sqrt \<bar>trace (res_ecef_cov r)\<bar>)"
    and e: "res_elapsed r = res_cluster_utc r - lrt"
    by blast+
  have "0 \<le> real_of_int (res_error r) / max_error"
    using b py_int_sqrt_nonneg by (simp add: max_error_def)
  from this a have "0 \<le> res_elapsed r / 20" by (rule order_trans)
  then have "0 \<le> res_elapsed r" by simp
  with e show ?thesis by simp
qed

lemma accept_result_frame:
  assumes "flow_state (accept_result E grp addr alt r p) = (ac', s')"
  shows "same_tables (snd p) s' \<and> last_result_time ac' = Some (res_cluster_utc r)
       \<and> last_result_position ac' = Some (res_ecef r)"
  using assms
  by (auto simp: accept_result_def Let_def same_tables_def same_groups_def
           split: option.splits prod.splits sum.splits if_splits)

lemma resolve_clusters_frame:
  assumes "flow_state (resolve_clusters E grp d addr alt adof lrp lrd lrt comps p) = (ac', s')"
  shows "same_tables (snd p) s' \<and> result_step lrt (fst p) ac'"
proof (cases "collect_clusters (receiver_objs E) (4 - adof) comps []")
  case (Inl e)
  with assms show ?thesis
    by (cases p) (auto simp: resolve_clusters_def result_step_def)
next
  case (Inr clusters)
  show ?thesis
  proof (cases "clusters = []")
    case True
    with Inr assms show ?thesis
      by (cases p) (auto simp: resolve_clusters_def result_step_def)
  next
    case False
    let ?loop = "select_cluster E d (fst p) alt adof lrp lrd lrt
                   (rev (sort_key (\<lambda>x. (fst x, fst (snd x))) clusters)) (snd p)"
    have st: "same_tables (snd p) (loop_state ?loop)"
      using select_cluster_only_stats only_stats_same_tables by blast
    show ?thesis
    proof (cases ?loop)
      case (Accepted r s)
      from select_cluster_accepted [OF Accepted] accepted_time
      have t: "lrt \<le> res_cluster_utc r" by blast
      from assms Inr False Accepted
      have "flow_state (accept_result E grp addr alt r (fst p, s)) = (ac', s')"
        by (simp add: resolve_clusters_def)
      from accept_result_frame [OF this] st Accepted t show ?thesis
        by (auto simp: result_step_def intro: same_tables_trans)
    next
      case (Exhausted s)
      with assms Inr False st show ?thesis
        by (auto simp: resolve_clusters_def result_step_def)
    next
      case (Aborted s)
      with assms Inr False st show ?thesis
        by (auto simp: resolve_clusters_def result_step_def)
    next
      case (LoopRaised e s)
      with assms Inr False st show ?thesis
        by (auto simp: resolve_clusters_def result_step_def)
    qed
  qed
qed

lemma prior_result_time:
  assumes "prior_result fs ac = Inr (lrp, lrv, lrd, lrt)" and "result_wf ac"
  shows "time_le (last_result_time ac) (Some lrt)"
  using assms
  by (auto simp: prior_result_def result_wf_def time_le_def split: option.splits if_splits)

lemma result_step_mono:
  assumes "result_step lrt ac ac'" and "result_wf ac \<longrightarrow> time_le (last_result_time ac) (Some lrt)"
  shows "ac_mono ac ac'"
  using assms
  by (auto simp: result_step_def ac_mono_def same_result_def result_wf_def time_le_def
           split: option.splits)

lemma gate_ac_same: "same_result ac (gate_ac now d ac)"
  by (simp add: gate_ac_def same_result_def split: option.splits)

lemma resolve_dof_frame:
  assumes "flow_state (resolve_dof c E grp d addr lrp lrd lrt elapsed p) = (ac', s')"
  shows "same_tables (snd p) s' \<and> result_step lrt (fst p) ac'"
proof (cases "altitude_constraint c (first_seen grp) (fst p)")
  case (Inl e)
  with assms show ?thesis
    by (cases p) (auto simp: resolve_dof_def result_step_def)
next
  case (Inr a)
  obtain alt adof where a: "a = (alt, adof)" by (cases a)
  let ?s1 = "(snd p)\<lparr>stats_normalize := Suc (stats_normalize (snd p))\<rparr>"
  have s1: "same_tables (snd p) ?s1"
    by (simp add: same_tables_def same_groups_def)
  have "resolve_dof c E grp d addr lrp lrd lrt elapsed p = Ret p
      \<or> resolve_dof c E grp d addr lrp lrd lrt elapsed p = Ret (fst p, ?s1)
      \<or> (\<exists>comps. resolve_dof c E grp d addr lrp lrd lrt elapsed p =
            resolve_clusters E grp d addr alt adof lrp lrd lrt comps (fst p, ?s1))"
    using Inr a by (auto simp: resolve_dof_def Let_def split: option.splits)
  then consider "resolve_dof c E grp d addr lrp lrd lrt elapsed p = Ret p"
    | "resolve_dof c E grp d addr lrp lrd lrt elapsed p = Ret (fst p, ?s1)"
    | comps where "resolve_dof c E grp d addr lrp lrd lrt elapsed p =
            resolve_clusters E grp d addr alt adof lrp lrd lrt comps (fst p, ?s1)"
    by blast
  then show ?thesis
  proof cases
    case 1
    with assms show ?thesis by (cases p) (auto simp: result_step_def)
  next
    case 2
    with assms s1 show ?thesis by (auto simp: result_step_def)
  next
    case 3
    with assms have "flow_state (resolve_clusters E grp d addr alt adof lrp lrd lrt comps
                       (fst p, ?s1)) = (ac', s')"
      by simp
    from resolve_clusters_frame [OF this] s1 show ?thesis
      by (auto intro: same_tables_trans)
  qed
qed

lemma resolve_gates_frame:
  assumes "flow_state (resolve_gates c E now grp d addr p) = (ac', s')"
  shows "same_tables (snd p) s' \<and> ac_mono (fst p) ac'"
proof -
  let ?ac2 = "gate_ac now d (fst p)"
  let ?ac = "?ac2\<lparr>last_resolve_attempt := now\<rparr>"
  have sr2: "same_result (fst p) ?ac2" by (rule gate_ac_same)
  then have sr: "same_result (fst p) ?ac" by (simp add: same_result_def)
  have m2: "ac_mono (fst p) ?ac2" using sr2 by (rule same_result_mono)
  have m: "ac_mono (fst p) ?ac" using sr by (rule same_result_mono)
  have "resolve_gates c E now grp d addr p = Ret (?ac2, snd p)
      \<or> resolve_gates c E now grp d addr p = Ret (?ac, snd p)
      \<or> (\<exists>e. resolve_gates c E now grp d addr p = Exc e (?ac, snd p))
      \<or> (\<exists>lrp lrv lrd lrt elapsed.
            prior_result (first_seen grp) ?ac = Inr (lrp, lrv, lrd, lrt) \<and>
            resolve_gates c E now grp d addr p =
              resolve_dof c E grp d addr lrp lrd lrt elapsed (?ac, snd p))"
  proof (cases "now - last_resolve_attempt ?ac2 < RESOLVE_INTERVAL c")
    case True
    then show ?thesis by (simp add: resolve_gates_def gate_ac_def Let_def)
  next
    case False
    show ?thesis
    proof (cases "prior_result (first_seen grp) ?ac")
      case (Inl e)
      with False show ?thesis by (simp add: resolve_gates_def gate_ac_def Let_def)
    next
      case (Inr pr)
      obtain lrp lrv lrd lrt where "pr = (lrp, lrv, lrd, lrt)" by (cases pr)
      with False Inr show ?thesis by (auto simp: resolve_gates_def gate_ac_def Let_def)
    qed
  qed
  then consider "resolve_gates c E now grp d addr p = Ret (?ac2, snd p)"
    | "resolve_gates c E now grp d addr p = Ret (?ac, snd p)"
    | e where "resolve_gates c E now grp d addr p = Exc e (?ac, snd p)"
    | lrp lrv lrd lrt elapsed where
        "prior_result (first_seen grp) ?ac = Inr (lrp, lrv, lrd, lrt)"
        "resolve_gates c E now grp d addr p =
           resolve_dof c E grp d addr lrp lrd lrt elapsed (?ac, snd p)"
    by blast
  then show ?thesis
  proof cases
    case 1
    with assms m2 show ?thesis by simp
  next
    case 2
    with assms m show ?thesis by simp
  next
    case 3
    with assms m show ?thesis by simp
  next
    case 4
    have tl: "result_wf ?ac \<longrightarrow> time_le (last_result_time ?ac) (Some lrt)"
      using prior_result_time 4(1) by blast
    from assms 4(2)
    have fl: "flow_state (resolve_dof c E grp d addr lrp lrd lrt elapsed (?ac, snd p)) = (ac', s')"
      by simp
    from resolve_dof_frame [OF fl]
    have a: "same_tables (snd p) s'" and b: "result_step lrt ?ac ac'" by simp_all
    from result_step_mono [OF b tl] m have "ac_mono (fst p) ac'"
      by (rule ac_mono_trans [rotated])
    with a show ?thesis by simp
  qed
qed

lemma store_ac_resolved:
  assumes "aircraft s addr = Some ac0" and "ac_mono ac0 (fst p)"
    and "same_tables (s\<lparr>pending := (pending s)(m := None),
                         stats_valid_groups := n\<rparr>) (snd p)"
  shows "resolved_from s m (store_ac addr p)"
  using assms
  by (cases p) (auto simp: resolved_from_def store_ac_def same_tables_def same_groups_def)

lemma tracked_flow_frame:
  assumes "flow_state (case update_altitude d fs p of
                         Next _ q \<Rightarrow> resolve_gates c E now grp d addr q
                       | Ret q \<Rightarrow> Ret q
                       | Exc e q \<Rightarrow> Exc e q) = q'"
  shows "same_tables (snd p) (snd q') \<and> ac_mono (fst p) (fst q')"
proof -
  note ua = update_altitude_frame [of p d fs]
  show ?thesis
  proof (cases "update_altitude d fs p")
    case (Next u q)
    with assms have "flow_state (resolve_gates c E now grp d addr q) = (fst q', snd q')"
      by simp
    from resolve_gates_frame [OF this] ua Next show ?thesis
      by (auto intro: same_tables_trans ac_mono_trans same_result_mono)
  next
    case (Ret q)
    with assms ua show ?thesis by (auto intro: same_result_mono)
  next
    case (Exc e q)
    with assms ua show ?thesis by (auto intro: same_result_mono)
  qed
qed

lemma resolve_effect:
  fixes s g
  defines "m \<equiv> message (group_heap s g)"
  shows "(pending s m = None \<and> resolve c E now g s = Raised KeyError s)
       \<or> (pending s m \<noteq> None \<and> resolved_from s m (state_of (resolve c E now g s)))"
proof (cases "pending s m")
  case None
  then show ?thesis by (simp add: resolve_def m_def Let_def)
next
  case (Some g')
  let ?grp = "group_heap s g"
  let ?s1 = "s\<lparr>pending := (pending s)(m := None)\<rparr>"
  have r1: "resolved_from s m ?s1"
    by (simp add: resolved_from_def)
  have "resolved_from s m (state_of (resolve c E now g s))"
  proof (cases "length (copies ?grp) < 3 \<or> decode E m = None")
    case True
    with Some r1 show ?thesis
      by (auto simp: resolve_def m_def Let_def)
  next
    case False
    then obtain d where d: "decode E m = Some d" by auto
    show ?thesis
    proof (cases "address d")
      case None
      with Some False d r1 show ?thesis by (auto simp: resolve_def m_def Let_def)
    next
      case (Some addr)
      note addr = this
      show ?thesis
      proof (cases "addr = 0 \<or> aircraft s addr = None")
        case True
        with \<open>pending s m = Some g'\<close> False d addr r1 show ?thesis
          by (auto simp: resolve_def m_def Let_def)
      next
        case nz: False
        then obtain ac0 where ac0: "aircraft s addr = Some ac0" by auto
        let ?ac1 = "ac0\<lparr>seen := now, mlat_message_count := Suc (mlat_message_count ac0)\<rparr>"
        let ?s2 = "?s1\<lparr>stats_valid_groups := Suc (stats_valid_groups ?s1)\<rparr>"
        have m1: "ac_mono ac0 ?ac1"
          by (rule same_result_mono) (simp add: same_result_def)
        show ?thesis
        proof (cases "allow_mlat ac0")
          case na: False
          have "resolved_from s m (store_ac addr (?ac1, ?s2))"
            using ac0 m1
              store_ac_resolved [where s = s and addr = addr and ?ac0.0 = ac0 and p = "(?ac1, ?s2)"
                and m = m and n = "Suc (stats_valid_groups s)"]
            by simp
          with \<open>pending s m = Some g'\<close> False d addr nz ac0 na show ?thesis
            by (simp add: resolve_def m_def Let_def)
        next
          case True
          let ?fl = "case update_altitude d (first_seen ?grp) (?ac1, ?s2) of
                       Next _ q \<Rightarrow> resolve_gates c E now ?grp d addr q
                     | Ret q \<Rightarrow> Ret q
                     | Exc e q \<Rightarrow> Exc e q"
          from tracked_flow_frame [OF refl, where d = d and fs = "first_seen ?grp"
                 and p = "(?ac1, ?s2)" and c = c and E = E and now = now and grp = "?grp"
                 and addr = addr]
          have fr: "same_tables ?s2 (snd (flow_state ?fl))" "ac_mono ?ac1 (fst (flow_state ?fl))"
            by simp_all
          have "ac_mono ac0 (fst (flow_state ?fl))"
            using m1 fr(2) by (rule ac_mono_trans)
          then have res: "resolved_from s m (store_ac addr (flow_state ?fl))"
            using ac0 fr(1)
              store_ac_resolved [where s = s and addr = addr and ?ac0.0 = ac0 and p = "flow_state ?fl"
                and m = m and n = "Suc (stats_valid_groups s)"]
            by simp
          have "state_of (resolve c E now g s) = store_ac addr (flow_state ?fl)"
            using \<open>pending s m = Some g'\<close> False d addr nz ac0 True
            by (cases ?fl) (simp_all add: resolve_def m_def Let_def)
          with res show ?thesis by simp
        qed
      qed
    qed
  qed
  with Some show ?thesis by simp
qed

subsection \<open>The copy cap of a group\<close>

lemma read_blacklist_fields [simp]:
  "group_heap (read_blacklist fs s) = group_heap s"
  "next_group (read_blacklist fs s) = next_group s"
  "cohort_heap (read_blacklist fs s) = cohort_heap s"
  "next_cohort (read_blacklist fs s) = next_cohort s"
  "cohort (read_blacklist fs s) = cohort s"
  "pending (read_blacklist fs s) = pending s"
  "aircraft (read_blacklist fs s) = aircraft s"
  by (simp_all add: read_blacklist_def Let_def)

lemma step_group_inv:
  assumes "- 1 \<le> MAX_GROUP c" and "\<forall>g. group_inv c (group_heap s g)"
  shows "\<forall>g. group_inv c (group_heap (step c s ev) g)"
proof (cases ev)
  case (ReceiverMlat rcv timestamp msg now)
  with receiver_mlat_group_inv [OF assms] show ?thesis by simp
next
  case (Resolve E now g)
  from resolve_effect [of s g c E now]
  have "group_heap (state_of (resolve c E now g s)) = group_heap s"
    by (auto simp: resolved_from_def)
  with Resolve assms(2) show ?thesis by simp
next
  case (ReadBlacklist fs)
  with assms(2) show ?thesis by simp
qed

lemma run_group_inv:
  assumes "- 1 \<le> MAX_GROUP c" and "\<forall>g. group_inv c (group_heap s g)"
  shows "\<forall>g. group_inv c (group_heap (run c s evs) g)"
  using assms(2)
proof (induction evs arbitrary: s)
  case Nil
  then show ?case by (simp add: run_def)
next
  case (Cons ev evs)
  from step_group_inv [OF assms(1) Cons.prems]
  have "\<forall>g. group_inv c (group_heap (step c s ev) g)" .
  from Cons.IH [OF this] show ?case by (simp add: run_def)
qed

lemma init_group_inv:
  "- 1 \<le> MAX_GROUP c \<Longrightarrow> group_inv c (group_heap (init_tracker t0 filename fs acs) g)"
  by (simp add: init_tracker_def group_inv_def new_MessageGroup_def)

text \<open>
  C6. In every state that the tracker reaches from its construction, a call of
  \<open>receiver_mlat\<close> for a message whose group already holds more than \<open>MAX_GROUP\<close> copies
  leaves the copies of the group as they are and adds the receiver to the group's
  receiver set; and every group holds at most \<open>MAX_GROUP + 1\<close> copies, each from a
  receiver in its receiver set. \<open>MAX_GROUP\<close> is a cap on a count: it is at least -1.
\<close>
theorem receiver_mlat_copy_cap:
  assumes "- 1 \<le> MAX_GROUP c" and "s = run c (init_tracker t0 filename fs acs) evs"
  shows "(\<forall>g<next_group s.
            int (length (copies (group_heap s g))) \<le> MAX_GROUP c + 1
          \<and> fst ` set (copies (group_heap s g)) \<subseteq> receivers (group_heap s g))
       \<and> (\<forall>rcv timestamp msg now g.
            pending s msg = Some g \<and> int (length (copies (group_heap s g))) > MAX_GROUP c \<longrightarrow>
              copies (group_heap (receiver_mlat c rcv timestamp msg now s) g)
                = copies (group_heap s g)
            \<and> receivers (group_heap (receiver_mlat c rcv timestamp msg now s) g)
                = insert rcv (receivers (group_heap s g)))"
proof -
  have "\<forall>g. group_inv c (group_heap s g)"
    unfolding assms(2) using assms(1) init_group_inv by (intro run_group_inv) simp_all
  then show ?thesis
    using receiver_mlat_over_cap [of s _ _ c] by (simp add: group_inv_def)
qed

lemma two_copies_state:
  "next_group (run cfg_cap1 fresh_tracker two_copies) = 1"
  "pending (run cfg_cap1 fresh_tracker two_copies) ''m'' = Some 0"
  "copies (group_heap (run cfg_cap1 fresh_tracker two_copies) 0) = [(1, 10, 100), (2, 10, 100)]"
  "receivers (group_heap (run cfg_cap1 fresh_tracker two_copies) 0) = {1, 2}"
  by (simp_all add: run_def two_copies_def fresh_tracker_def init_tracker_def cfg_cap1_def
      receiver_mlat_def create_group_def open_cohort_def new_MessageGroup_def new_Cohort_def
      Let_def read_blacklist_def insert_commute)

theorem receiver_mlat_copy_cap_witness:
  "int (length (copies (group_heap (run cfg_cap1 fresh_tracker two_copies) 0)))
     \<le> MAX_GROUP cfg_cap1 + 1
   \<and> fst ` set (copies (group_heap (run cfg_cap1 fresh_tracker two_copies) 0))
       \<subseteq> receivers (group_heap (run cfg_cap1 fresh_tracker two_copies) 0)
   \<and> copies (group_heap (receiver_mlat cfg_cap1 3 10 ''m'' 100
               (run cfg_cap1 fresh_tracker two_copies)) 0)
       = [(1, 10, 100), (2, 10, 100)]
   \<and> receivers (group_heap (receiver_mlat cfg_cap1 3 10 ''m'' 100
                  (run cfg_cap1 fresh_tracker two_copies)) 0)
       = {3, 1, 2}"
proof -
  have mg: "MAX_GROUP cfg_cap1 = 1"
    by (simp add: cfg_cap1_def)
  have c: "- 1 \<le> MAX_GROUP cfg_cap1"
    by (simp add: mg)
  note t = receiver_mlat_copy_cap [OF c, of "run cfg_cap1 fresh_tracker two_copies"
      0 None "\<lambda>_. None" Map.empty two_copies, unfolded fresh_tracker_def [symmetric], OF refl]
  have over: "pending (run cfg_cap1 fresh_tracker two_copies) ''m'' = Some 0
       \<and> int (length (copies (group_heap (run cfg_cap1 fresh_tracker two_copies) 0)))
           > MAX_GROUP cfg_cap1"
    by (simp add: two_copies_state mg)
  have lt: "0 < next_group (run cfg_cap1 fresh_tracker two_copies)"
    by (simp add: two_copies_state)
  from t lt have a: "int (length (copies (group_heap (run cfg_cap1 fresh_tracker two_copies) 0)))
     \<le> MAX_GROUP cfg_cap1 + 1
   \<and> fst ` set (copies (group_heap (run cfg_cap1 fresh_tracker two_copies) 0))
       \<subseteq> receivers (group_heap (run cfg_cap1 fresh_tracker two_copies) 0)"
    by blast
  from t over have b: "copies (group_heap (receiver_mlat cfg_cap1 3 10 ''m'' 100
               (run cfg_cap1 fresh_tracker two_copies)) 0)
       = copies (group_heap (run cfg_cap1 fresh_tracker two_copies) 0)
     \<and> receivers (group_heap (receiver_mlat cfg_cap1 3 10 ''m'' 100
                  (run cfg_cap1 fresh_tracker two_copies)) 0)
       = insert 3 (receivers (group_heap (run cfg_cap1 fresh_tracker two_copies) 0))"
    by blast
  from a b show ?thesis
    by (simp add: two_copies_state mg)
qed

subsection \<open>Cohort rollover\<close>

lemma new_message_step:
  fixes c rcv timestamp now
  assumes "pending s msg = None"
  defines "s' \<equiv> receiver_mlat c rcv timestamp msg now s"
  defines "cur \<equiv> cohort_heap s (cohort s)"
  shows "next_group s' = Suc (next_group s)"
    and "pending s' = (pending s)(msg \<mapsto> next_group s)"
    and "now - creationTime cur > 0.05 \<or> len cur > 25 \<Longrightarrow>
           cohort s' = next_cohort s \<and> next_cohort s' = Suc (next_cohort s) \<and>
           cohort_heap s' = (cohort_heap s)
             (next_cohort s := \<lparr>creationTime = now, len = 1, groups = [next_group s]\<rparr>)"
    and "\<not> (now - creationTime cur > 0.05 \<or> len cur > 25) \<Longrightarrow>
           cohort s' = cohort s \<and> next_cohort s' = next_cohort s \<and>
           cohort_heap s' = (cohort_heap s)
             (cohort s := cur\<lparr>groups := groups cur @ [next_group s], len := len cur + 1\<rparr>)"
  using assms(1) unfolding s'_def cur_def
  by (simp_all add: receiver_mlat_def create_group_def open_cohort_def new_Cohort_def Let_def
               split: prod.splits)

lemma run_Cons: "run c s (ev # evs) = run c (step c s ev) evs"
  by (simp add: run_def)

lemma run_append: "run c s (evs @ evs') = run c (run c s evs) evs'"
  by (simp add: run_def)

lemma fill_cohort:
  assumes "distinct (map ob_message obs)"
    and "\<forall>ob\<in>set obs. pending s (ob_message ob) = None"
    and "\<forall>ob\<in>set obs. ob_now ob - creationTime (cohort_heap s (cohort s)) \<le> 0.05"
    and "len (cohort_heap s (cohort s)) + int (length obs) \<le> 26"
  shows "cohort (run c s (map observe obs)) = cohort s
       \<and> next_cohort (run c s (map observe obs)) = next_cohort s
       \<and> creationTime (cohort_heap (run c s (map observe obs)) (cohort s))
           = creationTime (cohort_heap s (cohort s))
       \<and> len (cohort_heap (run c s (map observe obs)) (cohort s))
           = len (cohort_heap s (cohort s)) + int (length obs)
       \<and> groups (cohort_heap (run c s (map observe obs)) (cohort s))
           = groups (cohort_heap s (cohort s)) @ [next_group s ..< next_group s + length obs]
       \<and> next_group (run c s (map observe obs)) = next_group s + length obs
       \<and> (\<forall>m. pending (run c s (map observe obs)) m = None
              \<longleftrightarrow> pending s m = None \<and> m \<notin> ob_message ` set obs)"
  using assms
proof (induction obs arbitrary: s)
  case Nil
  then show ?case by (simp add: run_def)
next
  case (Cons ob obs)
  obtain rcv timestamp msg now where ob: "ob = (rcv, timestamp, msg, now)"
    by (cases ob)
  let ?s1 = "receiver_mlat c rcv timestamp msg now s"
  let ?cur = "cohort_heap s (cohort s)"
  have pn: "pending s msg = None"
    using Cons.prems(2) ob by (simp add: ob_message_def)
  have stay: "\<not> (now - creationTime ?cur > 0.05 \<or> len ?cur > 25)"
    using Cons.prems(3,4) ob by (auto simp: ob_now_def)
  note st = new_message_step [OF pn, where c = c and rcv = rcv and timestamp = timestamp
      and now = now]
  have c1: "cohort ?s1 = cohort s" "next_cohort ?s1 = next_cohort s"
    and h1: "cohort_heap ?s1 = (cohort_heap s)
              (cohort s := ?cur\<lparr>groups := groups ?cur @ [next_group s], len := len ?cur + 1\<rparr>)"
    using st(4) [OF stay] by simp_all
  have a1: "distinct (map ob_message obs)"
    using Cons.prems(1) by simp
  have a2: "\<forall>ob\<in>set obs. pending ?s1 (ob_message ob) = None"
    using Cons.prems(1,2) ob st(2) by (auto simp: ob_message_def)
  have a3: "\<forall>ob\<in>set obs. ob_now ob - creationTime (cohort_heap ?s1 (cohort ?s1)) \<le> 0.05"
    using Cons.prems(3) c1 h1 by simp
  have a4: "len (cohort_heap ?s1 (cohort ?s1)) + int (length obs) \<le> 26"
    using Cons.prems(4) c1 h1 by simp
  note ih = Cons.IH [OF a1 a2 a3 a4]
  have r: "run c s (map observe (ob # obs)) = run c ?s1 (map observe obs)"
    by (simp add: run_Cons ob observe_def)
  have ups: "[next_group s ..< next_group s + length (ob # obs)]
               = next_group s # [Suc (next_group s) ..< Suc (next_group s) + length obs]"
    using upt_conv_Cons [of "next_group s" "next_group s + Suc (length obs)"] by simp
  show ?case
    unfolding r using ih c1 h1 st(1,2) ups ob
    by (auto simp: ob_message_def)
qed

lemma init_tracker_fields:
  "pending (init_tracker t0 filename fs acs) = Map.empty"
  "cohort (init_tracker t0 filename fs acs) = 0"
  "next_cohort (init_tracker t0 filename fs acs) = 1"
  "next_group (init_tracker t0 filename fs acs) = 0"
  "cohort_heap (init_tracker t0 filename fs acs) 0 = \<lparr>creationTime = t0, len = 0, groups = []\<rparr>"
  by (simp_all add: init_tracker_def new_Cohort_def)

lemma fill_first_cohort:
  assumes "distinct (map ob_message obs)" and "\<forall>ob\<in>set obs. ob_now ob - t0 \<le> 0.05"
    and "length obs \<le> 26"
  shows "cohort (run c (init_tracker t0 filename fs acs) (map observe obs)) = 0
       \<and> next_cohort (run c (init_tracker t0 filename fs acs) (map observe obs)) = 1
       \<and> creationTime (cohort_heap (run c (init_tracker t0 filename fs acs) (map observe obs)) 0)
           = t0
       \<and> len (cohort_heap (run c (init_tracker t0 filename fs acs) (map observe obs)) 0)
           = int (length obs)
       \<and> groups (cohort_heap (run c (init_tracker t0 filename fs acs) (map observe obs)) 0)
           = [0 ..< length obs]
       \<and> next_group (run c (init_tracker t0 filename fs acs) (map observe obs)) = length obs
       \<and> (\<forall>m. pending (run c (init_tracker t0 filename fs acs) (map observe obs)) m = None
              \<longleftrightarrow> m \<notin> ob_message ` set obs)"
  using fill_cohort [of obs "init_tracker t0 filename fs acs" c] assms
  by (simp add: init_tracker_fields)

lemma inj_nth_message: "inj nth_message"
proof (rule injI)
  fix i j assume "nth_message i = nth_message j"
  then have "length (nth_message i) = length (nth_message j)" by simp
  then show "i = j" by (simp add: nth_message_def)
qed

lemma first_copies_props:
  "distinct (map ob_message (first_copies n))"
  "\<forall>ob\<in>set (first_copies n). ob_now ob - 0 \<le> 0.05"
  "length (first_copies n) = n"
proof -
  have "map ob_message (first_copies n) = map nth_message [0..<n]"
    by (simp add: first_copies_def ob_message_def)
  then show "distinct (map ob_message (first_copies n))"
    using inj_nth_message by (simp add: distinct_map inj_on_def inj_def)
  show "\<forall>ob\<in>set (first_copies n). ob_now ob - 0 \<le> 0.05"
    by (auto simp: first_copies_def ob_now_def)
  show "length (first_copies n) = n"
    by (simp add: first_copies_def)
qed

text \<open>
  C2, as the code has it. If 27 distinct messages each arrive (first copy) within 50 ms
  of the creation of the tracker's first cohort, then the groups of the first 26
  messages are placed in that cohort, and the 27th message's group is placed in a new,
  second cohort: a new cohort is opened when the current one holds more than 25 groups
  at the arrival of a new message.
\<close>
theorem cohort_rollover_by_count:
  assumes "length obs = 27" and "distinct (map ob_message obs)"
    and "\<forall>ob\<in>set obs. ob_now ob - t0 \<le> 0.05"
  shows "cohort (run c (init_tracker t0 filename fs acs) (map observe (take 26 obs))) = 0
       \<and> next_cohort (run c (init_tracker t0 filename fs acs) (map observe (take 26 obs))) = 1
       \<and> groups (cohort_heap (run c (init_tracker t0 filename fs acs)
                    (map observe (take 26 obs))) 0) = [0..<26]
       \<and> cohort (run c (init_tracker t0 filename fs acs) (map observe obs)) = 1
       \<and> next_cohort (run c (init_tracker t0 filename fs acs) (map observe obs)) = 2
       \<and> groups (cohort_heap (run c (init_tracker t0 filename fs acs) (map observe obs)) 0)
           = [0..<26]
       \<and> groups (cohort_heap (run c (init_tracker t0 filename fs acs) (map observe obs)) 1)
           = [26]"
proof -
  let ?s0 = "init_tracker t0 filename fs acs"
  let ?s26 = "run c ?s0 (map observe (take 26 obs))"
  obtain rcv timestamp msg now where last: "obs ! 26 = (rcv, timestamp, msg, now)"
    by (cases "obs ! 26")
  have split: "obs = take 26 obs @ [obs ! 26]"
    using assms(1) by (metis Suc_eq_plus1 lessI numeral_plus_one semiring_norm(5)
        take_Suc_conv_app_nth take_all order_refl)
  have d26: "distinct (map ob_message (take 26 obs))"
    using assms(2) by (simp add: take_map [symmetric])
  have t26: "\<forall>ob\<in>set (take 26 obs). ob_now ob - t0 \<le> 0.05"
    using assms(3) by (meson in_set_takeD)
  have l26: "length (take 26 obs) = 26"
    using assms(1) by simp
  note f = fill_first_cohort [OF d26 t26, of c filename fs acs, unfolded l26, simplified]
  have "msg \<notin> ob_message ` set (take 26 obs)"
  proof
    assume "msg \<in> ob_message ` set (take 26 obs)"
    then have "ob_message (obs ! 26) \<in> set (map ob_message (take 26 obs))"
      using last by (simp add: ob_message_def)
    moreover have "map ob_message obs = map ob_message (take 26 obs) @ [ob_message (obs ! 26)]"
      using split by (metis list.simps(8,9) map_append)
    ultimately show False
      using assms(2) by simp
  qed
  then have pn: "pending ?s26 msg = None"
    using f by simp
  have full: "now - creationTime (cohort_heap ?s26 (cohort ?s26)) > 0.05
              \<or> len (cohort_heap ?s26 (cohort ?s26)) > 25"
    using f by simp
  note st = new_message_step(3) [OF pn full, where c = c and rcv = rcv and timestamp = timestamp]
  have r: "run c ?s0 (map observe obs) = receiver_mlat c rcv timestamp msg now ?s26"
  proof -
    have "run c ?s0 (map observe obs) = run c ?s26 [observe (obs ! 26)]"
      using split by (metis list.simps(8,9) map_append run_append)
    then show ?thesis
      by (simp add: run_def last observe_def)
  qed
  show ?thesis
    unfolding r using st f by simp
qed

theorem cohort_rollover_by_count_witness:
  "cohort (run cfg_cap1 fresh_tracker (map observe (take 26 (first_copies 27)))) = 0
   \<and> groups (cohort_heap (run cfg_cap1 fresh_tracker
                (map observe (take 26 (first_copies 27)))) 0) = [0..<26]
   \<and> cohort (run cfg_cap1 fresh_tracker (map observe (first_copies 27))) = 1
   \<and> groups (cohort_heap (run cfg_cap1 fresh_tracker (map observe (first_copies 27))) 1) = [26]"
  using cohort_rollover_by_count [OF first_copies_props(3) [of 27] first_copies_props(1) [of 27]
      first_copies_props(2) [of 27], where c = cfg_cap1 and filename = None and fs = "\<lambda>_. None"
      and acs = Map.empty]
  by (simp add: fresh_tracker_def)

theorem cohort_rollover_counterexample:
  "cohort (run cfg_cap1 fresh_tracker (map observe (first_copies 26))) = 0
   \<and> next_cohort (run cfg_cap1 fresh_tracker (map observe (first_copies 26))) = 1
   \<and> groups (cohort_heap (run cfg_cap1 fresh_tracker (map observe (first_copies 26))) 0)
       = [0..<26]"
  using fill_first_cohort [OF first_copies_props(1) [of 26] first_copies_props(2) [of 26],
      where c = cfg_cap1 and filename = None and fs = "\<lambda>_. None" and acs = Map.empty]
  by (simp add: fresh_tracker_def first_copies_props(3))

subsection \<open>Monotonic result time, the pending key, the freshness gate\<close>

lemma receiver_mlat_aircraft [simp]:
  "aircraft (receiver_mlat c rcv timestamp msg now s) = aircraft s"
  by (simp add: receiver_mlat_def create_group_def open_cohort_def Let_def
           split: option.splits prod.splits)

lemma resolved_from_mono:
  assumes "resolved_from s m s'" and "results_wf s"
  shows "results_wf s' \<and> time_le (result_time_of s a) (result_time_of s' a)"
proof -
  from assms(1) consider "aircraft s' = aircraft s"
    | addr ac0 ac' where "aircraft s addr = Some ac0" "ac_mono ac0 ac'"
        "aircraft s' = (aircraft s)(addr \<mapsto> ac')"
    by (auto simp: resolved_from_def)
  then show ?thesis
  proof cases
    case 1
    with assms(2) show ?thesis by (simp add: results_wf_def result_time_of_def)
  next
    case 2
    from 2(1) assms(2) have "result_wf ac0" by (simp add: results_wf_def)
    with 2(2) have w: "result_wf ac'" and t: "time_le (last_result_time ac0) (last_result_time ac')"
      by (simp_all add: ac_mono_def)
    from w assms(2) 2(3) have "results_wf s'"
      by (simp add: results_wf_def)
    moreover have "time_le (result_time_of s a) (result_time_of s' a)"
      using t 2(1,3) by (simp add: result_time_of_def)
    ultimately show ?thesis by simp
  qed
qed

lemma step_mono:
  assumes "results_wf s"
  shows "results_wf (step c s ev) \<and> time_le (result_time_of s a) (result_time_of (step c s ev) a)"
proof (cases ev)
  case (ReceiverMlat rcv timestamp msg now)
  with assms show ?thesis by (simp add: results_wf_def result_time_of_def)
next
  case (Resolve E now g)
  from resolve_effect [of s g c E now] consider "resolve c E now g s = Raised KeyError s"
    | "resolved_from s (message (group_heap s g)) (state_of (resolve c E now g s))"
    by blast
  then show ?thesis
  proof cases
    case 1
    with Resolve assms show ?thesis by simp
  next
    case 2
    from resolved_from_mono [OF 2 assms] Resolve show ?thesis by simp
  qed
next
  case (ReadBlacklist fs)
  with assms show ?thesis by (simp add: results_wf_def result_time_of_def)
qed

lemma run_mono:
  assumes "results_wf s"
  shows "results_wf (run c s evs) \<and> time_le (result_time_of s a) (result_time_of (run c s evs) a)"
  using assms
proof (induction evs arbitrary: s)
  case Nil
  then show ?case by (simp add: run_def)
next
  case (Cons ev evs)
  from step_mono [OF Cons.prems, of c ev a]
  have w: "results_wf (step c s ev)"
    and t: "time_le (result_time_of s a) (result_time_of (step c s ev) a)"
    by simp_all
  from Cons.IH [OF w] t show ?case
    by (auto simp: run_Cons intro: time_le_trans)
qed

text \<open>
  C4. For every aircraft, \<open>last_result_time\<close> never decreases along the calls made to the
  tracker: from a state in which no aircraft holds a result time without a result
  position, the value after any sequence of calls of \<open>receiver_mlat\<close>, \<open>_resolve\<close> and
  \<open>read_blacklist\<close> is at most the value after any longer sequence. In particular the
  value that an accepting \<open>_resolve\<close> assigns is at least the previous one.
\<close>
theorem last_result_time_monotonic:
  assumes "results_wf s"
  shows "time_le (result_time_of (run c s evs) a) (result_time_of (run c s (evs @ evs')) a)"
proof -
  from run_mono [OF assms, of c evs] have "results_wf (run c s evs)" by simp
  from run_mono [OF this, of c evs' a] show ?thesis by (simp add: run_append)
qed

text \<open>
  C7, as the code has it. The first step of \<open>_resolve\<close> deletes the group's message from
  the pending map. When the message is not in the map the deletion raises \<open>KeyError\<close>
  and the call ends there, with the state unchanged; when it is, the state after the
  call has the pending map without that message.
\<close>
theorem resolve_removes_pending:
  "(pending s (message (group_heap s g)) = None \<longrightarrow> resolve c E now g s = Raised KeyError s)
   \<and> (pending s (message (group_heap s g)) \<noteq> None \<longrightarrow>
        pending (state_of (resolve c E now g s)) = (pending s)(message (group_heap s g) := None))"
  using resolve_effect [of s g c E now] by (auto simp: resolved_from_def)

lemma gate_abort:
  assumes "cluster_utc - lr_time < 2"
    and "real_of_int (int distinct_n + altitude_dof - 4)
           < real_of_int lr_dof - (cluster_utc - lr_time) + 0.5"
  shows "try_cluster E d ac alt altitude_dof lr_position lr_dof lr_time
           (distinct_n, cluster_utc, cl) s = Abort s"
  using assms by (simp add: try_cluster_def Let_def)

lemma select_cluster_prefix:
  assumes "\<And>s. try_cluster E d ac alt adof lrp lrd lrt c s = Abort s"
  shows "select_cluster E d ac alt adof lrp lrd lrt (pre @ c # rest) s
           = select_cluster E d ac alt adof lrp lrd lrt (pre @ [c]) s"
proof (induction pre arbitrary: s)
  case Nil
  then show ?case by (simp add: assms)
next
  case (Cons p pre)
  then show ?case by (simp split: attempt.splits)
qed

text \<open>
  C5. If the cluster popped in the selection loop has \<open>elapsed < 2\<close> and
  \<open>dof < last_result_dof - elapsed + 0.5\<close>, the loop ends the whole resolution there:
  the state is the one in which the cluster was popped, so the solver is not called
  again; the clusters that remain have no influence on the outcome; and when the
  cluster is the first one popped, the resolution returns with the aircraft and the
  tracker unchanged, so that no result is produced.
\<close>
theorem freshness_gate_aborts:
  assumes "cluster_utc - lr_time < 2"
    and "real_of_int (int distinct_n + altitude_dof - 4)
           < real_of_int lr_dof - (cluster_utc - lr_time) + 0.5"
  shows "select_cluster E d ac alt altitude_dof lr_position lr_dof lr_time
           ((distinct_n, cluster_utc, cl) # rest) s = Aborted s
       \<and> (\<forall>pre. select_cluster E d ac alt altitude_dof lr_position lr_dof lr_time
                   (pre @ (distinct_n, cluster_utc, cl) # rest) s
                 = select_cluster E d ac alt altitude_dof lr_position lr_dof lr_time
                   (pre @ [(distinct_n, cluster_utc, cl)]) s)
       \<and> (collect_clusters (receiver_objs E) (4 - altitude_dof) components [] = Inr clusters
            \<and> rev (sort_key (\<lambda>x. (fst x, fst (snd x))) clusters)
                = (distinct_n, cluster_utc, cl) # rest
          \<longrightarrow> resolve_clusters E grp d addr alt altitude_dof lr_position lr_dof lr_time
                components (ac, s) = Ret (ac, s))"
proof -
  note ab = gate_abort [OF assms, of E d ac alt lr_position cl]
  have 1: "select_cluster E d ac alt altitude_dof lr_position lr_dof lr_time
           ((distinct_n, cluster_utc, cl) # rest) s = Aborted s"
    by (simp add: ab)
  have 2: "\<forall>pre. select_cluster E d ac alt altitude_dof lr_position lr_dof lr_time
                   (pre @ (distinct_n, cluster_utc, cl) # rest) s
                 = select_cluster E d ac alt altitude_dof lr_position lr_dof lr_time
                   (pre @ [(distinct_n, cluster_utc, cl)]) s"
    using select_cluster_prefix [of E d ac alt altitude_dof lr_position lr_dof lr_time
        "(distinct_n, cluster_utc, cl)"] ab by blast
  have 3: "collect_clusters (receiver_objs E) (4 - altitude_dof) components [] = Inr clusters
            \<and> rev (sort_key (\<lambda>x. (fst x, fst (snd x))) clusters)
                = (distinct_n, cluster_utc, cl) # rest
          \<longrightarrow> resolve_clusters E grp d addr alt altitude_dof lr_position lr_dof lr_time
                components (ac, s) = Ret (ac, s)"
  proof
    assume a: "collect_clusters (receiver_objs E) (4 - altitude_dof) components [] = Inr clusters
            \<and> rev (sort_key (\<lambda>x. (fst x, fst (snd x))) clusters)
                = (distinct_n, cluster_utc, cl) # rest"
    then have "clusters \<noteq> []" by auto
    with a 1 show "resolve_clusters E grp d addr alt altitude_dof lr_position lr_dof lr_time
                components (ac, s) = Ret (ac, s)"
      by (simp add: resolve_clusters_def)
  qed
  from 1 2 3 show ?thesis by blast
qed

subsection \<open>A concrete resolution\<close>

lemma sqrt_5km: "sqrt 25000000 = 5000"
  by (rule real_sqrt_unique) simp_all

lemma py_int_floor: "py_int (sqrt \<bar>x\<bar>) = \<lfloor>sqrt \<bar>x\<bar>\<rfloor>"
  by (simp add: py_int_def)

lemma four_copies_state:
  "pending (run cfg_std tracker_one four_copies) ''m'' = Some 0"
  "group_heap (run cfg_std tracker_one four_copies) 0 = group4"
  "aircraft (run cfg_std tracker_one four_copies) = [1 \<mapsto> aircraft_prior]"
  by (simp_all add: run_def four_copies_def tracker_one_def init_tracker_def cfg_std_def
      receiver_mlat_def create_group_def open_cohort_def new_MessageGroup_def new_Cohort_def
      Let_def read_blacklist_def insert_commute group4_def)

lemma cluster_four: "cluster_timestamps R5km component4 4 = Inr [(4, 100, members4)]"
  by (simp add: cluster_timestamps_def flatten_def item_ts_def extract_clusters.simps
      seed_cluster_def emit_cluster_def group_left_def R5km_def members4_def Cair_def
      component4_def)

lemma sort_members4: "sort_key member_ts members4 = members4"
  by (simp add: members4_def member_ts_def)

lemma try_four:
  "try_cluster (test_env 25000000) decoded_plain ac None 0 (Some (0, 0, 0)) 0 90
     (4, 100, members4) s
   = Accept \<lparr>res_ecef = (1, 2, 3), res_ecef_cov = cov_of 25000000, res_var_est = 25000000,
             res_error = 5000, res_distinct = 4, res_dof = 0, res_cluster_utc = 100,
             res_elapsed = 10, res_cluster = members4, res_altitude_error = None\<rparr>
       (s\<lparr>stats_solve_attempt := Suc (stats_solve_attempt s),
          stats_solve_success := Suc (stats_solve_success s),
          stats_solve_used := Suc (stats_solve_used s)\<rparr>)"
  by (simp add: try_cluster_def Let_def altitude_error_of_def decoded_plain_def
      initial_guess_of_def sort_members4 test_env_def trace_def cov_of_def max_error_def
      py_int_def sqrt_5km)

lemma group4_fields:
  "message group4 = ''m''" "first_seen group4 = 100" "length (copies group4) = 4"
  "normalize2 (test_env v) (build_timestamp_map (copies group4)) = Some [component4]"
  "length (build_timestamp_map (copies group4)) = 4"
  by (simp_all add: group4_def build_timestamp_map_def test_env_def component4_def)

lemma clusters_four:
  "resolve_clusters (test_env 25000000) grp decoded_plain addr None 0 (Some (0, 0, 0)) 0 90
     [component4] (ac, s)
   = accept_result (test_env 25000000) grp addr None
       \<lparr>res_ecef = (1, 2, 3), res_ecef_cov = cov_of 25000000, res_var_est = 25000000,
        res_error = 5000, res_distinct = 4, res_dof = 0, res_cluster_utc = 100,
        res_elapsed = 10, res_cluster = members4, res_altitude_error = None\<rparr>
       (ac, s\<lparr>stats_solve_attempt := Suc (stats_solve_attempt s),
              stats_solve_success := Suc (stats_solve_success s),
              stats_solve_used := Suc (stats_solve_used s)\<rparr>)"
proof -
  have "collect_clusters (receiver_objs (test_env 25000000)) (4 - 0) [component4] []
          = Inr [(4, 100, members4)]"
    by (simp add: cluster_four test_env_def component4_def [THEN arg_cong, of length])
  then show ?thesis
    by (simp add: resolve_clusters_def try_four)
qed

lemma test_env_fields:
  "decode (test_env v) m = Some decoded_plain"
  "ecef2llh (test_env v) x = x"
  "llh2ecef (test_env v) x = x"
  "kalman_update (test_env v) utc cl alt err ecef cov dn dof = True"
  "receiver_objs (test_env v) = R5km"
  "solve (test_env v) cl alt' err guess = Some ((1, 2, 3), Some (cov_of v))"
  by (simp_all add: test_env_def)

lemma resolve_four:
  "result_time_of (state_of (resolve cfg_std (test_env 25000000) (1002 / 10) 0
      (run cfg_std tracker_one four_copies))) 1 = Some 100"
proof -
  let ?s = "run cfg_std tracker_one four_copies"
  have d: "decode (test_env 25000000) ''m'' = Some decoded_plain"
    by (simp add: test_env_def)
  have dp: "address decoded_plain = Some 1" "decoded_altitude decoded_plain = None"
    "decoded_squawk decoded_plain = None" "decoded_callsign decoded_plain = None"
    by (simp_all add: decoded_plain_def)
  have c: "RESOLVE_INTERVAL cfg_std = 1 / 10" "RESOLVE_BACKOFF cfg_std = 1 / 2"
    by (simp_all add: cfg_std_def)
  show ?thesis
    by (simp add: resolve_def four_copies_state group4_fields d dp c Let_def result_time_of_def
        update_altitude_def resolve_gates_def resolve_dof_def clusters_four
        prior_result_def altitude_constraint_def accept_result_def store_ac_def
        aircraft_prior_def test_env_fields)
qed

subsection \<open>Witnesses of the resolve pipeline\<close>

lemma results_wf_tracker_one: "results_wf tracker_one"
  by (simp add: results_wf_def tracker_one_def init_tracker_def read_blacklist_def
      result_wf_def aircraft_prior_def)

lemma tracker_one_time: "result_time_of (run cfg_std tracker_one four_copies) 1 = Some 90"
  by (simp add: result_time_of_def four_copies_state aircraft_prior_def)

theorem last_result_time_monotonic_witness:
  "result_time_of (run cfg_std tracker_one four_copies) 1 = Some 90
   \<and> result_time_of (run cfg_std tracker_one
         (four_copies @ [Resolve (test_env 25000000) (1002 / 10) 0])) 1 = Some 100
   \<and> time_le (result_time_of (run cfg_std tracker_one four_copies) 1)
        (result_time_of (run cfg_std tracker_one
           (four_copies @ [Resolve (test_env 25000000) (1002 / 10) 0])) 1)"
  using last_result_time_monotonic [OF results_wf_tracker_one, of cfg_std four_copies 1
      "[Resolve (test_env 25000000) (1002 / 10) 0]"]
    tracker_one_time resolve_four
  by (simp add: run_append run_def)

theorem resolve_missing_key_counterexample:
  "resolve cfg_std (test_env 0) 0 0 fresh_tracker = Raised KeyError fresh_tracker"
  by (simp add: resolve_def fresh_tracker_def init_tracker_def read_blacklist_def
      new_MessageGroup_def)

lemma tracker_one_pending: "pending tracker_one (message (group_heap tracker_one 0)) = None"
  by (simp add: tracker_one_def init_tracker_def read_blacklist_def)

lemma four_copies_pending:
  "pending (run cfg_std tracker_one four_copies)
     (message (group_heap (run cfg_std tracker_one four_copies) 0)) \<noteq> None"
  by (simp add: four_copies_state group4_fields)

theorem resolve_removes_pending_witness:
  "resolve cfg_std (test_env 25000000) (1002 / 10) 0 tracker_one = Raised KeyError tracker_one
   \<and> pending (state_of (resolve cfg_std (test_env 25000000) (1002 / 10) 0
                 (run cfg_std tracker_one four_copies))) ''m'' = None"
  using resolve_removes_pending [of tracker_one 0 cfg_std "test_env 25000000" "1002 / 10"]
    resolve_removes_pending [of "run cfg_std tracker_one four_copies" 0 cfg_std
      "test_env 25000000" "1002 / 10"]
    tracker_one_pending four_copies_pending
  by (simp add: four_copies_state group4_fields)

lemma collect_component3:
  "collect_clusters (receiver_objs (test_env v)) (4 - 1) [component3] []
     = Inr [(3, 100, members3)]"
  by (simp add: cluster_timestamps_component3 test_env_fields
      component3_def [THEN arg_cong, of length])

theorem freshness_gate_aborts_witness:
  "select_cluster (test_env 0) decoded_plain aircraft_prior (Some 1000) 1 None 1 (995 / 10)
     [(3, 100, members3), (4, 100, members4)] tracker_one = Aborted tracker_one
   \<and> resolve_clusters (test_env 0) group4 decoded_plain 1 (Some 1000) 1 None 1 (995 / 10)
       [component3] (aircraft_prior, tracker_one) = Ret (aircraft_prior, tracker_one)"
proof -
  have g1: "(100::real) - 995 / 10 < 2"
    by simp
  have g2: "real_of_int (int 3 + 1 - 4) < real_of_int 1 - (100 - 995 / 10) + 0.5"
    by simp
  note t1 = freshness_gate_aborts [OF g1 g2, of "test_env 0" decoded_plain aircraft_prior
      "Some 1000" None members3 "[(4, 100, members4)]" tracker_one]
  note t2 = freshness_gate_aborts [OF g1 g2, of "test_env 0" decoded_plain aircraft_prior
      "Some 1000" None members3 "[]" tracker_one "[component3]" "[(3, 100, members3)]"
      group4 1]
  from t1 have "select_cluster (test_env 0) decoded_plain aircraft_prior (Some 1000) 1 None 1
      (995 / 10) [(3, 100, members3), (4, 100, members4)] tracker_one = Aborted tracker_one"
    by blast
  moreover from t2 collect_component3 [of 0]
  have "resolve_clusters (test_env 0) group4 decoded_plain 1 (Some 1000) 1 None 1 (995 / 10)
       [component3] (aircraft_prior, tracker_one) = Ret (aircraft_prior, tracker_one)"
    by simp
  ultimately show ?thesis by simp
qed

subsection \<open>The quality of an accepted result\<close>

lemma sqrt_10000_5: "sqrt (400040001 / 4) = 20001 / 2"
  by (rule real_sqrt_unique) (simp_all add: power2_eq_square)

lemma try_cluster_5km:
  assumes "solve E (sort_key member_ts cl) alt aerr lr_position = Some (ecef, Some ecef_cov)"
    and "\<lfloor>sqrt \<bar>trace ecef_cov\<bar>\<rfloor> = 5000"
    and "altitude_error_of d alt ac cluster_utc = Inr aerr"
  shows "cluster_utc - lr_time = 5 \<Longrightarrow>
           try_cluster E d ac alt altitude_dof lr_position lr_dof lr_time
             (distinct_n, cluster_utc, cl) s
           = Continue (s\<lparr>stats_solve_attempt := Suc (stats_solve_attempt s),
                         stats_solve_success := Suc (stats_solve_success s)\<rparr>)"
    and "cluster_utc - lr_time = 15 \<Longrightarrow>
           try_cluster E d ac alt altitude_dof lr_position lr_dof lr_time
             (distinct_n, cluster_utc, cl) s
           = Accept \<lparr>res_ecef = ecef, res_ecef_cov = ecef_cov, res_var_est = trace ecef_cov,
                     res_error = 5000, res_distinct = distinct_n,
                     res_dof = int distinct_n + altitude_dof - 4,
                     res_cluster_utc = cluster_utc, res_elapsed = 15,
                     res_cluster = sort_key member_ts cl, res_altitude_error = aerr\<rparr>
               (solved_once s)"
proof -
  have e: "py_int (sqrt \<bar>trace ecef_cov\<bar>) = 5000"
    using assms(2) by (simp only: py_int_floor)
  show "cluster_utc - lr_time = 5 \<Longrightarrow>
           try_cluster E d ac alt altitude_dof lr_position lr_dof lr_time
             (distinct_n, cluster_utc, cl) s
           = Continue (s\<lparr>stats_solve_attempt := Suc (stats_solve_attempt s),
                         stats_solve_success := Suc (stats_solve_success s)\<rparr>)"
    using assms(1,3) e
    by (simp add: try_cluster_def Let_def initial_guess_of_def max_error_def)
  show "cluster_utc - lr_time = 15 \<Longrightarrow>
           try_cluster E d ac alt altitude_dof lr_position lr_dof lr_time
             (distinct_n, cluster_utc, cl) s
           = Accept \<lparr>res_ecef = ecef, res_ecef_cov = ecef_cov, res_var_est = trace ecef_cov,
                     res_error = 5000, res_distinct = distinct_n,
                     res_dof = int distinct_n + altitude_dof - 4,
                     res_cluster_utc = cluster_utc, res_elapsed = 15,
                     res_cluster = sort_key member_ts cl, res_altitude_error = aerr\<rparr>
               (solved_once s)"
    using assms(1,3) e
    by (simp add: try_cluster_def Let_def initial_guess_of_def max_error_def solved_once_def)
qed

text \<open>
  C3, as the code has it. The error of a solver result is the truncated value
  \<open>int(sqrt(abs(trace(ecef_cov))))\<close>. For every result accepted by the selection loop,
  this error is at most 10 km and \<open>elapsed / 20 \<ge> error / 10 km\<close>, where
  \<open>elapsed = cluster_utc - last_result_time\<close>. In particular a result with an error of
  5 km is rejected by the loop body (the loop goes on with the next cluster) at
  \<open>elapsed = 5 s\<close> and accepted at \<open>elapsed = 15 s\<close>.
\<close>
theorem accepted_result_quality:
  "(select_cluster E d ac alt altitude_dof lr_position lr_dof lr_time clusters s
      = Accepted r s' \<longrightarrow>
      res_error r = \<lfloor>sqrt \<bar>trace (res_ecef_cov r)\<bar>\<rfloor>
    \<and> real_of_int (res_error r) \<le> 10000
    \<and> res_elapsed r = res_cluster_utc r - lr_time
    \<and> real_of_int (res_error r) / 10000 \<le> res_elapsed r / 20)
   \<and> (solve E (sort_key member_ts cl) alt aerr lr_position = Some (ecef, Some ecef_cov)
       \<and> \<lfloor>sqrt \<bar>trace ecef_cov\<bar>\<rfloor> = 5000
       \<and> altitude_error_of d alt ac cluster_utc = Inr aerr \<longrightarrow>
        (cluster_utc - lr_time = 5 \<longrightarrow>
           try_cluster E d ac alt altitude_dof lr_position lr_dof lr_time
             (distinct_n, cluster_utc, cl) s
           = Continue (s\<lparr>stats_solve_attempt := Suc (stats_solve_attempt s),
                         stats_solve_success := Suc (stats_solve_success s)\<rparr>))
      \<and> (cluster_utc - lr_time = 15 \<longrightarrow>
           try_cluster E d ac alt altitude_dof lr_position lr_dof lr_time
             (distinct_n, cluster_utc, cl) s
           = Accept \<lparr>res_ecef = ecef, res_ecef_cov = ecef_cov, res_var_est = trace ecef_cov,
                     res_error = 5000, res_distinct = distinct_n,
                     res_dof = int distinct_n + altitude_dof - 4,
                     res_cluster_utc = cluster_utc, res_elapsed = 15,
                     res_cluster = sort_key member_ts cl, res_altitude_error = aerr\<rparr>
               (solved_once s)))"
proof -
  have a: "select_cluster E d ac alt altitude_dof lr_position lr_dof lr_time clusters s
      = Accepted r s' \<longrightarrow>
      res_error r = \<lfloor>sqrt \<bar>trace (res_ecef_cov r)\<bar>\<rfloor>
    \<and> real_of_int (res_error r) \<le> 10000
    \<and> res_elapsed r = res_cluster_utc r - lr_time
    \<and> real_of_int (res_error r) / 10000 \<le> res_elapsed r / 20"
  proof
    assume "select_cluster E d ac alt altitude_dof lr_position lr_dof lr_time clusters s
      = Accepted r s'"
    from select_cluster_accepted [OF this] obtain c s0 s1
      where "try_cluster E d ac alt altitude_dof lr_position lr_dof lr_time c s0 = Accept r s1"
      by blast
    from try_cluster_accept [OF this, unfolded max_error_def py_int_floor]
    show "res_error r = \<lfloor>sqrt \<bar>trace (res_ecef_cov r)\<bar>\<rfloor>
        \<and> real_of_int (res_error r) \<le> 10000
        \<and> res_elapsed r = res_cluster_utc r - lr_time
        \<and> real_of_int (res_error r) / 10000 \<le> res_elapsed r / 20"
      by blast
  qed
  from a try_cluster_5km [of E cl alt aerr lr_position ecef ecef_cov d ac cluster_utc lr_time
      altitude_dof lr_dof distinct_n s]
  show ?thesis by blast
qed

lemma try_5km_at_5:
  "try_cluster (test_env 25000000) decoded_plain aircraft_prior None 0 (Some (0, 0, 0)) 0 95
     (4, 100, members4) tracker_one
   = Continue (tracker_one\<lparr>stats_solve_attempt := Suc (stats_solve_attempt tracker_one),
                 stats_solve_success := Suc (stats_solve_success tracker_one)\<rparr>)"
  by (simp add: try_cluster_def Let_def altitude_error_of_def decoded_plain_def
      initial_guess_of_def sort_members4 test_env_fields trace_def cov_of_def max_error_def
      py_int_def sqrt_5km)

lemma try_5km_at_15:
  "try_cluster (test_env 25000000) decoded_plain aircraft_prior None 0 (Some (0, 0, 0)) 0 85
     (4, 100, members4) s = Accept accepted_5km (solved_once s)"
  by (simp add: try_cluster_def Let_def altitude_error_of_def decoded_plain_def
      initial_guess_of_def sort_members4 test_env_fields trace_def cov_of_def max_error_def
      py_int_def sqrt_5km accepted_5km_def solved_once_def)

theorem accepted_result_quality_witness:
  "select_cluster (test_env 25000000) decoded_plain aircraft_prior None 0 (Some (0, 0, 0)) 0 85
     [(4, 100, members4)] tracker_one = Accepted accepted_5km (solved_once tracker_one)
   \<and> res_error accepted_5km = \<lfloor>sqrt \<bar>trace (res_ecef_cov accepted_5km)\<bar>\<rfloor>
   \<and> real_of_int (res_error accepted_5km) \<le> 10000
   \<and> res_elapsed accepted_5km = res_cluster_utc accepted_5km - 85
   \<and> real_of_int (res_error accepted_5km) / 10000 \<le> res_elapsed accepted_5km / 20
   \<and> try_cluster (test_env 25000000) decoded_plain aircraft_prior None 0 (Some (0, 0, 0)) 0 95
       (4, 100, members4) tracker_one
       = Continue (tracker_one\<lparr>stats_solve_attempt := Suc (stats_solve_attempt tracker_one),
                     stats_solve_success := Suc (stats_solve_success tracker_one)\<rparr>)
   \<and> try_cluster (test_env 25000000) decoded_plain aircraft_prior None 0 (Some (0, 0, 0)) 0 85
       (4, 100, members4) tracker_one = Accept accepted_5km (solved_once tracker_one)"
proof -
  have sel: "select_cluster (test_env 25000000) decoded_plain aircraft_prior None 0
      (Some (0, 0, 0)) 0 85 [(4, 100, members4)] tracker_one
      = Accepted accepted_5km (solved_once tracker_one)"
    by (simp add: try_5km_at_15)
  note t = accepted_result_quality [of "test_env 25000000" decoded_plain aircraft_prior None 0
      "Some (0, 0, 0)" 0 85 "[(4, 100, members4)]" tracker_one accepted_5km
      "solved_once tracker_one"]
  from t sel have "res_error accepted_5km = \<lfloor>sqrt \<bar>trace (res_ecef_cov accepted_5km)\<bar>\<rfloor>
   \<and> real_of_int (res_error accepted_5km) \<le> 10000
   \<and> res_elapsed accepted_5km = res_cluster_utc accepted_5km - 85
   \<and> real_of_int (res_error accepted_5km) / 10000 \<le> res_elapsed accepted_5km / 20"
    by blast
  with sel try_5km_at_5 try_5km_at_15 [of tracker_one] show ?thesis by blast
qed

theorem accepted_result_counterexample:
  "select_cluster (test_env (100010000 + 1 / 4)) decoded_plain aircraft_prior None 0
     (Some (0, 0, 0)) 0 80 [(4, 100, members4)] tracker_one
     = Accepted accepted_over_10km (solved_once tracker_one)
   \<and> sqrt (trace (res_ecef_cov accepted_over_10km)) > 10000
   \<and> res_elapsed accepted_over_10km / 20
       < sqrt (trace (res_ecef_cov accepted_over_10km)) / 10000"
proof -
  have "try_cluster (test_env (100010000 + 1 / 4)) decoded_plain aircraft_prior None 0
     (Some (0, 0, 0)) 0 80 (4, 100, members4) tracker_one
     = Accept accepted_over_10km (solved_once tracker_one)"
    by (simp add: try_cluster_def Let_def altitude_error_of_def decoded_plain_def
      initial_guess_of_def sort_members4 test_env_fields trace_def cov_of_def max_error_def
      py_int_def sqrt_10000_5 accepted_over_10km_def solved_once_def)
  then have "select_cluster (test_env (100010000 + 1 / 4)) decoded_plain aircraft_prior None 0
     (Some (0, 0, 0)) 0 80 [(4, 100, members4)] tracker_one
     = Accepted accepted_over_10km (solved_once tracker_one)"
    by simp
  moreover have "sqrt (trace (res_ecef_cov accepted_over_10km)) = 10000 + 1 / 2"
    by (simp add: accepted_over_10km_def cov_of_def trace_def sqrt_10000_5)
  ultimately show ?thesis
    by (simp add: accepted_over_10km_def)
qed

subsection \<open>The blacklist\<close>

lemma isspace_LF: "isspace LF" "isspace CR"
  by (simp_all add: isspace_def LF_def CR_def)

lemma strip_append_space:
  assumes "isspace c"
  shows "strip (xs @ [c]) = strip xs"
proof (cases "\<forall>x\<in>set xs. isspace x")
  case True
  have "\<forall>x\<in>set (xs @ [c]). isspace x"
    using True assms by simp
  then have a: "dropWhile isspace (xs @ [c]) = []"
    by (simp only: dropWhile_eq_Nil_conv)
  have b: "dropWhile isspace xs = []"
    using True by (simp only: dropWhile_eq_Nil_conv)
  show ?thesis by (simp only: strip_def a b)
next
  case False
  then have "dropWhile isspace (xs @ [c]) = dropWhile isspace xs @ [c]"
    by (metis dropWhile_append1)
  then have "rev (dropWhile isspace (xs @ [c])) = c # rev (dropWhile isspace xs)"
    by simp
  then show ?thesis using assms by (simp only: strip_def dropWhile.simps if_True)
qed

lemma readline_first_line:
  "readline contents = first_line contents \<or> readline contents = first_line contents @ [LF]"
  by (induction contents) (auto simp: first_line_def)

lemma strip_readline: "strip (readline contents) = strip (first_line contents)"
  using readline_first_line [of contents] strip_append_space [OF isspace_LF(1)] by auto

text \<open>
  C9, as the code has it. \<open>read_blacklist\<close> reads one line: the blacklist it produces
  holds exactly the first line of the file, stripped, when that is not empty; it is
  empty when no file name is configured, when the file is absent, and when the first
  line is blank. The set is replaced wholesale: the blacklist before the call has no
  influence on the state after it.
\<close>
theorem read_blacklist_first_line:
  "blacklist (read_blacklist fs s) =
     (case blacklist_filename s of
        None \<Rightarrow> {}
      | Some filename \<Rightarrow>
          if filename = [] then {}
          else (case fs filename of
                  None \<Rightarrow> {}
                | Some contents \<Rightarrow>
                    if strip (first_line contents) = [] then {} else {strip (first_line contents)}))
   \<and> read_blacklist fs (s\<lparr>blacklist := b\<rparr>) = read_blacklist fs s"
  by (simp add: read_blacklist_def strip_readline Let_def split: option.splits)

lemma strip_alice: "strip (first_line (''  alice '' @ [LF] @ ''bob'' @ [LF])) = ''alice''"
  by (simp add: first_line_def strip_def isspace_def LF_def CR_def)

theorem read_blacklist_first_line_witness:
  "blacklist (read_blacklist file_alice_bob tracker_bl) = {''alice''}
   \<and> blacklist (read_blacklist (\<lambda>_. None) tracker_bl) = {}"
proof -
  have f: "blacklist_filename tracker_bl = Some ''bl''"
    by (simp add: tracker_bl_def init_tracker_def read_blacklist_def)
  from read_blacklist_first_line [of file_alice_bob tracker_bl]
    read_blacklist_first_line [of "\<lambda>_. None" tracker_bl] f strip_alice
  show ?thesis
    by (simp add: file_alice_bob_def)
qed

theorem read_blacklist_counterexample:
  "blacklist (read_blacklist file_blank_then_bob tracker_bl) = {}
   \<and> spec_blacklist (file_blank_then_bob ''bl'') = {''bob''}"
proof -
  have f: "blacklist_filename tracker_bl = Some ''bl''"
    by (simp add: tracker_bl_def init_tracker_def read_blacklist_def)
  have "blacklist (read_blacklist file_blank_then_bob tracker_bl) = {}"
    by (simp add: read_blacklist_def f file_blank_then_bob_def strip_def isspace_LF)
  moreover have "spec_blacklist (file_blank_then_bob ''bl'') = {''bob''}"
    by (simp add: spec_blacklist_def spec_first_nonempty_line_def file_blank_then_bob_def
        strip_def isspace_def LF_def CR_def)
  ultimately show ?thesis by simp
qed

subsection \<open>The altitude history\<close>

lemma prune_into_at:
  "prune_into fs new_hist old h new_hist
     = h new_hist @ filter (\<lambda>sample. fs - fst sample < 20) old"
  unfolding prune_into_def
  by (induction old arbitrary: h) (auto split: prod.splits)

lemma record_altitude_new_hist:
  assumes "record_altitude alt fs (ac, s) = (new_hist, ac', s')"
  shows "alt_history ac' = new_hist"
    and "new_hist = next_hist s"
    and "hist_heap s' new_hist
           = filter (\<lambda>sample. fs - fst sample < 20)
               (((hist_heap s)(next_hist s := [])) (alt_history ac)) @ [(fs, alt)]"
    and "vrate ac' = vrate ac" and "vrate_time ac' = vrate_time ac"
  using assms by (auto simp: record_altitude_def Let_def prune_into_at)

lemma record_altitude_nonempty:
  assumes "record_altitude alt fs (ac, s) = (new_hist, ac', s')"
  shows "\<exists>oldest. first_item (hist_heap s' new_hist) = Inr oldest"
  using record_altitude_new_hist(3) [OF assms]
  by (simp add: first_item_def split: list.splits)

lemma update_vrate_no_IndexError: "update_vrate alt fs oldest ac \<noteq> Inl IndexError"
  by (simp add: update_vrate_def Let_def split: option.splits)

lemma accept_altitude_no_IndexError: "accept_altitude alt fs ac \<noteq> Inl IndexError"
  by (simp add: accept_altitude_def split: option.splits)

lemma update_altitude_no_IndexError: "update_altitude d fs (ac, s) \<noteq> Exc IndexError q"
proof (cases "decoded_altitude d")
  case None
  then show ?thesis by (simp add: update_altitude_def)
next
  case (Some alt)
  obtain new_hist ac' s' where ra: "record_altitude alt fs (ac, s) = (new_hist, ac', s')"
    by (cases "record_altitude alt fs (ac, s)")
  from record_altitude_nonempty [OF ra] obtain oldest
    where fi: "first_item (hist_heap s' new_hist) = Inr oldest" by blast
  show ?thesis
    using Some ra fi update_vrate_no_IndexError [of alt fs oldest ac']
      accept_altitude_no_IndexError [of alt fs ac]
    by (auto simp: update_altitude_def split: sum.splits bool.splits)
qed

text \<open>
  C10. On the path of \<open>_resolve\<close> that accepts a decoded altitude, the read of
  \<open>new_hist[0]\<close> after the append never fails: \<open>ac.alt_history\<close> holds the reference
  that \<open>new_hist\<close> holds, so the list read is the list appended to, and the altitude
  update never raises \<open>IndexError\<close>. When no sample of the old history is younger than
  20 s, \<open>new_hist[0]\<close> is the sample just appended, \<open>ts_diff\<close> is 0, and \<open>vrate\<close> and
  \<open>vrate_time\<close> keep their values.
\<close>
theorem new_hist_first_is_present:
  assumes "decoded_altitude d = Some alt" and "- 1500 < alt" and "alt < 75000"
    and "accept_altitude alt fs ac = Inr True"
    and "record_altitude alt fs (ac, s) = (new_hist, ac', s')"
  shows "alt_history ac' = new_hist
       \<and> (\<exists>oldest. first_item (hist_heap s' new_hist) = Inr oldest)
       \<and> (\<forall>q. update_altitude d fs (ac, s) \<noteq> Exc IndexError q)
       \<and> ((\<forall>sample\<in>set (hist_heap s (alt_history ac)). \<not> fs - fst sample < 20) \<longrightarrow>
            first_item (hist_heap s' new_hist) = Inr (fs, alt)
          \<and> fs - fst (fs, alt) = 0
          \<and> update_altitude d fs (ac, s) = Next () (ac', s')
          \<and> vrate ac' = vrate ac \<and> vrate_time ac' = vrate_time ac)"
proof -
  note r = record_altitude_new_hist [OF assms(5)]
  have pruned: "(\<forall>sample\<in>set (hist_heap s (alt_history ac)). \<not> fs - fst sample < 20) \<longrightarrow>
            first_item (hist_heap s' new_hist) = Inr (fs, alt)
          \<and> fs - fst (fs, alt) = 0
          \<and> update_altitude d fs (ac, s) = Next () (ac', s')
          \<and> vrate ac' = vrate ac \<and> vrate_time ac' = vrate_time ac"
  proof
    assume old: "\<forall>sample\<in>set (hist_heap s (alt_history ac)). \<not> fs - fst sample < 20"
    have "filter (\<lambda>sample. fs - fst sample < 20)
            (((hist_heap s)(next_hist s := [])) (alt_history ac)) = []"
      using old by (cases "alt_history ac = next_hist s") (simp_all add: filter_empty_conv)
    with r(3) have h: "hist_heap s' new_hist = [(fs, alt)]" by simp
    then have fi: "first_item (hist_heap s' new_hist) = Inr (fs, alt)"
      by (simp add: first_item_def)
    have uv: "update_vrate alt fs (fs, alt) ac' = Inr ac'"
      by (simp add: update_vrate_def)
    have "update_altitude d fs (ac, s) = Next () (ac', s')"
      using assms(1-5) fi uv by (simp add: update_altitude_def)
    with fi r(4,5) show "first_item (hist_heap s' new_hist) = Inr (fs, alt)
          \<and> fs - fst (fs, alt) = 0
          \<and> update_altitude d fs (ac, s) = Next () (ac', s')
          \<and> vrate ac' = vrate ac \<and> vrate_time ac' = vrate_time ac"
      by simp
  qed
  from r(1) record_altitude_nonempty [OF assms(5)] update_altitude_no_IndexError [of d fs ac s]
    pruned
  show ?thesis by blast
qed

subsection \<open>A concrete altitude update\<close>

lemma recorded_ref: "fst recorded = 1"
  by (simp add: recorded_def record_altitude_def Let_def tracker_hist_def)

theorem new_hist_first_is_present_witness:
  "alt_history (fst (snd recorded)) = 1
   \<and> first_item (hist_heap (snd (snd recorded)) 1) = Inr (100, 30000)
   \<and> update_altitude decoded_30000 100 (aircraft_prior, tracker_hist) = Next () (snd recorded)
   \<and> vrate (fst (snd recorded)) = vrate aircraft_prior
   \<and> vrate_time (fst (snd recorded)) = vrate_time aircraft_prior"
proof -
  have d: "decoded_altitude decoded_30000 = Some 30000"
    by (simp add: decoded_30000_def)
  have acc: "accept_altitude 30000 100 aircraft_prior = Inr True"
    by (simp add: accept_altitude_def aircraft_prior_def)
  have rec: "record_altitude 30000 100 (aircraft_prior, tracker_hist)
               = (1, fst (snd recorded), snd (snd recorded))"
    using recorded_ref by (simp add: recorded_def [symmetric] prod_eq_iff)
  have old: "\<forall>sample\<in>set (hist_heap tracker_hist (alt_history aircraft_prior)).
               \<not> 100 - fst sample < (20::real)"
    by (simp add: tracker_hist_def aircraft_prior_def)
  from new_hist_first_is_present [OF d _ _ acc rec] old
  show ?thesis by simp
qed

subsection \<open>Cluster engine on a heap (H2)\<close>

lemma modifies_refl [simp]: "modifies S h h"
  by (simp add: modifies_def)

lemma modifies_trans:
  assumes "modifies S h h'" and "modifies S' h' h''" and "\<forall>a\<in>S'. a \<in> S \<or> free h \<le> a"
  shows "modifies S h h''"
  using assms unfolding modifies_def
  by (metis le_trans not_le order.strict_trans2)

lemma modifies_mono: "modifies S h h' \<Longrightarrow> S \<subseteq> T \<Longrightarrow> modifies T h h'"
  by (auto simp: modifies_def)

lemma modifies_put: "r \<in> S \<or> free h \<le> r \<Longrightarrow> modifies S h (put r v h)"
  by (auto simp: modifies_def put_def)

lemma free_put [simp]: "free (put r v h) = free h"
  by (simp add: put_def)

lemma cells_put: "cells (put r v h) a = (if a = r then v else cells h a)"
  by (simp add: put_def)

lemma alloc_props:
  assumes "alloc v h = (r, h')"
  shows "r = free h" and "free h' = Suc (free h)" and "cells h' = (cells h)(r := v)"
    and "modifies S h h'"
  using assms by (auto simp: alloc_def modifies_def)

lemma flatten_stamps_modifies: "modifies {flat} h (flatten_stamps flat rcv variance ts h)"
proof (induction ts arbitrary: h)
  case Nil
  then show ?case by simp
next
  case (Cons p ts)
  obtain timestamp utc where p: "p = (timestamp, utc)" by (cases p)
  let ?h1 = "put flat (ItemList (items_at h flat @ [(rcv, timestamp, variance, utc)])) h"
  have "modifies {flat} h ?h1" by (simp add: modifies_put)
  from modifies_trans [OF this Cons [of ?h1]] p show ?case by simp
qed

lemma flatten_entries_modifies: "modifies {flat} h (heap_of (flatten_entries flat es h))"
proof (induction es arbitrary: h)
  case Nil
  then show ?case by simp
next
  case (Cons e es)
  obtain rcv variance r where e: "e = (rcv, variance, r)" by (cases e)
  show ?case
  proof (cases "cells h r")
    case (StampList ts)
    from modifies_trans [OF flatten_stamps_modifies [of flat h rcv variance ts]
        Cons [of "flatten_stamps flat rcv variance ts h"]] e StampList
    show ?thesis by simp
  qed (use e in simp_all)
qed

lemma rough_loop_modifies: "modifies {grps, grp} h (heap_of (rough_loop grps grp rest h))"
proof (induction rest arbitrary: grp h)
  case Nil
  then show ?case by simp
next
  case (Cons t rest)
  show ?case
  proof (cases "rev (items_at h grp)")
    case Nil
    then show ?thesis by simp
  next
    case (Cons prev more)
    show ?thesis
    proof (cases "item_ts t - item_ts prev > 2 / 1000")
      case True
      obtain g' h1 where al: "alloc (ItemList [t]) h = (g', h1)"
        by (cases "alloc (ItemList [t]) h")
      note a = alloc_props [OF al]
      let ?h2 = "put grps (GroupList (groups_at h1 grps @ [g'])) h1"
      have "modifies {grps, grp} h1 ?h2" by (simp add: modifies_put)
      with a(4) [of "{grps, grp}"] have m2: "modifies {grps, grp} h ?h2"
        by (rule modifies_trans) simp
      from Cons.IH [of g' ?h2] have "modifies {grps, g'} ?h2 (heap_of (rough_loop grps g' rest ?h2))" .
      with m2 have "modifies {grps, grp} h (heap_of (rough_loop grps g' rest ?h2))"
        by (rule modifies_trans) (use a(1) in auto)
      with True Cons al show ?thesis by simp
    next
      case False
      let ?h1 = "put grp (ItemList (items_at h grp @ [t])) h"
      have "modifies {grps, grp} h ?h1" by (simp add: modifies_put)
      from modifies_trans [OF this Cons.IH [of grp ?h1]] False Cons show ?thesis by simp
    qed
  qed
qed

lemma form_loop_modifies: "modifies {grp, cl} h (heap_of (form_loop R lt grp cl n fs dn h))"
proof (induction n arbitrary: fs dn h)
  case 0
  then show ?case by simp
next
  case (Suc i)
  show ?case
  proof (cases "i < length (items_at h grp)")
    case False
    then show ?thesis by simp
  next
    case True
    obtain rcv timestamp variance utc
      where it: "items_at h grp ! i = (rcv, timestamp, variance, utc)"
      by (cases "items_at h grp ! i")
    obtain can_cluster is_distinct
      where chk: "check_candidate R rcv timestamp (members_at h cl) True
                    = (can_cluster, is_distinct)"
      by (cases "check_candidate R rcv timestamp (members_at h cl) True")
    let ?h1 = "put cl (MemberList (members_at h cl @ [(rcv, timestamp, variance)])) h"
    let ?h2 = "put grp (ItemList (delete_at i (items_at ?h1 grp))) ?h1"
    have "modifies {grp, cl} h ?h1" by (simp add: modifies_put)
    moreover have "modifies {grp, cl} ?h1 ?h2" by (simp add: modifies_put)
    ultimately have "modifies {grp, cl} h ?h2" by (rule modifies_trans) simp
    from modifies_trans [OF this Suc [where fs = "min fs utc"
          and dn = "if is_distinct then Suc dn else dn" and h = ?h2]]
      Suc [where fs = fs and dn = dn and h = h] True it chk
    show ?thesis by (auto simp: Let_def)
  qed
qed

lemma extract_pass_modifies:
  "modifies {grp, clusters} h (heap_of (extract_pass R m grp clusters seed h))"
proof -
  obtain rcv timestamp variance utc where seed: "seed = (rcv, timestamp, variance, utc)"
    by (cases seed)
  let ?h1 = "put grp (ItemList (butlast (items_at h grp))) h"
  obtain cl h2 where al: "alloc (MemberList [(rcv, timestamp, variance)]) ?h1 = (cl, h2)"
    by (cases "alloc (MemberList [(rcv, timestamp, variance)]) ?h1")
  note a = alloc_props [OF al]
  let ?fl = "form_loop R timestamp grp cl (length (items_at h2 grp)) utc 1 h2"
  have m1: "modifies {grp, clusters} h ?h1" by (simp add: modifies_put)
  have m2: "modifies {grp, clusters} h h2"
    using m1 a(4) [of "{grp, clusters}"] by (rule modifies_trans) simp
  have m3: "modifies {grp, clusters} h (heap_of ?fl)"
    using m2 form_loop_modifies [of grp cl h2 R timestamp "length (items_at h2 grp)" utc 1]
    by (rule modifies_trans) (use a(1) in auto)
  show ?thesis
  proof (cases ?fl)
    case (Err e h3)
    with m3 seed al show ?thesis by (simp add: extract_pass_def Let_def)
  next
    case (Ok v h3)
    obtain fs dn where v: "v = (fs, dn)" by (cases v)
    from m3 Ok have m: "modifies {grp, clusters} h h3" by simp
    have fr: "free h \<le> cl" using a(1) by simp
    let ?h4 = "put cl (MemberList (rev (members_at h3 cl))) h3"
    let ?h5 = "put clusters (ClusterList (clusters_at ?h4 clusters @ [(dn, fs, cl)])) ?h4"
    have "modifies {grp, clusters, cl} h3 ?h4" by (simp add: modifies_put)
    moreover have "modifies {grp, clusters, cl} ?h4 ?h5" by (simp add: modifies_put)
    ultimately have "modifies {grp, clusters, cl} h3 ?h5" by (rule modifies_trans) simp
    with m have "modifies {grp, clusters} h ?h5"
      by (rule modifies_trans) (use fr in auto)
    with m Ok v seed al show ?thesis by (simp add: extract_pass_def Let_def)
  qed
qed

lemma extract_heap_modifies:
  "modifies {grp, clusters} h (heap_of (extract_heap R m grp clusters h))"
proof (induction R m grp clusters h rule: extract_heap.induct)
  case (1 R m grp clusters h)
  show ?case
  proof (cases "m \<le> int (length (items_at h grp))")
    case False
    then show ?thesis by (simp add: extract_heap.simps [of R m grp clusters h])
  next
    case True
    show ?thesis
    proof (cases "rev (items_at h grp)")
      case Nil
      with True show ?thesis by (simp add: extract_heap.simps [of R m grp clusters h])
    next
      case (Cons seed todo)
      note ep = extract_pass_modifies [of grp clusters h R m seed]
      show ?thesis
      proof (cases "extract_pass R m grp clusters seed h")
        case (Err e h')
        with ep True Cons show ?thesis
          by (simp add: extract_heap.simps [of R m grp clusters h])
      next
        case (Ok u h')
        from 1 [OF True Cons Ok] ep Ok
        have "modifies {grp, clusters} h (heap_of (extract_heap R m grp clusters h'))"
          by (auto intro: modifies_trans)
        with True Cons Ok show ?thesis
          by (simp add: extract_heap.simps [of R m grp clusters h])
      qed
    qed
  qed
qed

lemma cluster_groups_heap_modifies:
  "modifies (insert clusters (set grps)) h (heap_of (cluster_groups_heap R m grps clusters h))"
proof (induction grps arbitrary: h)
  case Nil
  then show ?case by simp
next
  case (Cons g grps)
  have m1: "modifies (insert clusters (set (g # grps))) h (heap_of (extract_heap R m g clusters h))"
    by (rule modifies_mono [OF extract_heap_modifies]) auto
  show ?case
  proof (cases "extract_heap R m g clusters h")
    case (Err e h')
    with m1 show ?thesis by simp
  next
    case (Ok u h')
    from m1 Ok have "modifies (insert clusters (set (g # grps))) h h'" by simp
    from modifies_trans [OF this Cons [of h']] Ok show ?thesis by auto
  qed
qed

subsection \<open>Cluster engine on a heap (H3)\<close>

lemma groups_at_put:
  "groups_at (put r v h) r' =
     (if r' = r then (case v of GroupList xs \<Rightarrow> xs | _ \<Rightarrow> []) else groups_at h r')"
  by (simp add: groups_at_def put_def)

lemma rough_loop_refs:
  assumes "\<forall>r\<in>set (groups_at h grps). n \<le> r" and "n \<le> free h"
  shows "\<forall>r\<in>set (groups_at (heap_of (rough_loop grps grp rest h)) grps). n \<le> r"
  using assms
proof (induction rest arbitrary: grp h)
  case Nil
  then show ?case by simp
next
  case (Cons t rest)
  show ?case
  proof (cases "rev (items_at h grp)")
    case Nil
    with Cons.prems show ?thesis by simp
  next
    case (Cons prev more)
    show ?thesis
    proof (cases "item_ts t - item_ts prev > 2 / 1000")
      case True
      obtain g' h1 where al: "alloc (ItemList [t]) h = (g', h1)"
        by (cases "alloc (ItemList [t]) h")
      note a = alloc_props [OF al]
      let ?h2 = "put grps (GroupList (groups_at h1 grps @ [g'])) h1"
      have "set (groups_at h1 grps) \<subseteq> set (groups_at h grps)"
        using a(1,3) by (auto simp: groups_at_def)
      then have r2: "\<forall>r\<in>set (groups_at ?h2 grps). n \<le> r"
        using Cons.prems a(1) by (auto simp: groups_at_put)
      have f2: "n \<le> free ?h2"
        using Cons.prems(2) a(2) by simp
      from Cons.IH [OF r2 f2, of g'] True Cons al show ?thesis by simp
    next
      case False
      let ?h1 = "put grp (ItemList (items_at h grp @ [t])) h"
      have r1: "\<forall>r\<in>set (groups_at ?h1 grps). n \<le> r"
        using Cons.prems(1) by (simp add: groups_at_put)
      have f1: "n \<le> free ?h1"
        using Cons.prems(2) by simp
      from Cons.IH [OF r1 f1, of grp] False Cons show ?thesis by simp
    qed
  qed
qed

lemma modifies_fresh:
  assumes "modifies {} h0 h" and "modifies S h h'" and "\<forall>a\<in>S. free h0 \<le> a"
  shows "modifies {} h0 h'"
  using assms(1,2) by (rule modifies_trans) (use assms(3) in simp)

lemma modifies_free: "modifies S h h' \<Longrightarrow> free h \<le> free h'"
  by (simp add: modifies_def)

lemma cluster_timestamps_heap_modifies:
  "modifies {} h0 (heap_of (cluster_timestamps_heap R c m h0))"
proof -
  obtain flat h1 where a1: "alloc (ItemList []) h0 = (flat, h1)"
    by (cases "alloc (ItemList []) h0")
  note p1 = alloc_props [OF a1]
  have m1: "modifies {} h0 h1" by (rule p1(4))
  show ?thesis
  proof (cases "cells h1 c")
    case (Component es)
    let ?fe = "flatten_entries flat es h1"
    have m2: "modifies {} h0 (heap_of ?fe)"
      using m1 flatten_entries_modifies [of flat h1 es] by (rule modifies_fresh) (simp add: p1(1))
    show ?thesis
    proof (cases ?fe)
      case (Err e h2)
      with m2 a1 Component show ?thesis by (simp add: cluster_timestamps_heap_def)
    next
      case (Ok u h2)
      with m2 have m2': "modifies {} h0 h2" by simp
      let ?h3 = "put flat (ItemList (sort_key item_ts (items_at h2 flat))) h2"
      have m3: "modifies {} h0 ?h3"
        using m2' modifies_put [of flat "{flat}" h2] by (rule modifies_fresh) (simp_all add: p1(1))
      show ?thesis
      proof (cases "items_at ?h3 flat")
        case Nil
        with m3 a1 Component Ok show ?thesis
          by (simp add: cluster_timestamps_heap_def Let_def)
      next
        case (Cons t0 rest)
        obtain grp h4 where a4: "alloc (ItemList [t0]) ?h3 = (grp, h4)"
          by (cases "alloc (ItemList [t0]) ?h3")
        obtain grps h5 where a5: "alloc (GroupList [grp]) h4 = (grps, h5)"
          by (cases "alloc (GroupList [grp]) h4")
        obtain tail h6 where a6: "alloc (ItemList rest) h5 = (tail, h6)"
          by (cases "alloc (ItemList rest) h5")
        note p4 = alloc_props [OF a4] and p5 = alloc_props [OF a5] and p6 = alloc_props [OF a6]
        have f3: "free h0 \<le> free ?h3" using m3 by (rule modifies_free)
        have m6: "modifies {} h0 h6"
          using m3 p4(4) [of "{}"] p5(4) [of "{}"] p6(4) [of "{}"]
          by (meson modifies_fresh empty_iff)
        have g6: "groups_at h6 grps = [grp]"
          using p5 p6 by (simp add: groups_at_def)
        have ge: "free h0 \<le> grp" "free h0 \<le> grps"
          using f3 p4(1,2) p5(1) by simp_all
        let ?rl = "rough_loop grps grp (items_at h6 tail) h6"
        have m7: "modifies {} h0 (heap_of ?rl)"
          using m6 rough_loop_modifies [of grps grp h6 "items_at h6 tail"]
          by (rule modifies_fresh) (use ge in auto)
        have r7: "\<forall>r\<in>set (groups_at (heap_of ?rl) grps). free h0 \<le> r"
          using rough_loop_refs [of h6 grps "free h0" grp "items_at h6 tail"] g6 ge(1)
            modifies_free [OF m6]
          by simp
        show ?thesis
        proof (cases ?rl)
          case (Err e h7)
          with m7 a1 Component Ok Cons a4 a5 a6 show ?thesis
            by (simp add: cluster_timestamps_heap_def Let_def)
        next
          case ok7: (Ok u7 h7)
          obtain clusters h8 where a8: "alloc (ClusterList []) h7 = (clusters, h8)"
            by (cases "alloc (ClusterList []) h7")
          note p8 = alloc_props [OF a8]
          from m7 ok7 have m7': "modifies {} h0 h7" by simp
          have m8: "modifies {} h0 h8"
            using m7' p8(4) [of "{}"] by (rule modifies_fresh) simp
          have ge8: "free h0 \<le> clusters"
            using modifies_free [OF m7'] p8(1) by simp
          have g8: "set (groups_at h8 grps) \<subseteq> set (groups_at h7 grps)"
            using p8(3) by (auto simp: groups_at_def)
          let ?cg = "cluster_groups_heap R m (groups_at h8 grps) clusters h8"
          have m9: "modifies {} h0 (heap_of ?cg)"
            using m8 cluster_groups_heap_modifies [of clusters "groups_at h8 grps" h8 R m]
            by (rule modifies_fresh) (use ge8 g8 r7 ok7 in auto)
          have "heap_of (cluster_timestamps_heap R c m h0) = heap_of ?cg"
            using a1 Component Ok Cons a4 a5 a6 ok7 a8
            by (cases ?cg) (simp_all add: cluster_timestamps_heap_def Let_def)
          with m9 show ?thesis by simp
        qed
      qed
    qed
  qed (use m1 a1 in \<open>simp_all add: cluster_timestamps_heap_def\<close>)
qed

subsection \<open>Cluster engine on a heap (H4)\<close>

lemma flatten_stamps_items:
  "items_at (flatten_stamps flat rcv variance ts h) flat
     = items_at h flat @ map (\<lambda>(timestamp, utc). (rcv, timestamp, variance, utc)) ts"
  by (induction ts arbitrary: h) (auto simp: items_at_put)

lemma flatten_stamps_cells:
  "a \<noteq> flat \<Longrightarrow> cells (flatten_stamps flat rcv variance ts h) a = cells h a"
  by (induction ts arbitrary: h) (auto simp: cells_put)

lemma flatten_Cons:
  "flatten ((rcv, variance, ts) # cv)
     = map (\<lambda>(timestamp, utc). (rcv, timestamp, variance, utc)) ts @ flatten cv"
  by (simp add: flatten_def)

lemma entries_value_cong:
  "\<forall>e\<in>set es. cells h' (snd (snd e)) = cells h (snd (snd e)) \<Longrightarrow>
     entries_value h' es = entries_value h es"
  by (auto simp: entries_value_def stamps_at_def)

lemma flatten_entries_refines:
  assumes "\<forall>e\<in>set es. snd (snd e) \<noteq> flat \<and> (\<exists>ts. cells h (snd (snd e)) = StampList ts)"
  shows "\<exists>h'. flatten_entries flat es h = Ok () h' \<and>
              items_at h' flat = items_at h flat @ flatten (entries_value h es)"
  using assms
proof (induction es arbitrary: h)
  case Nil
  then show ?case by (simp add: flatten_def entries_value_def)
next
  case (Cons e es)
  obtain rcv variance r where e: "e = (rcv, variance, r)" by (cases e)
  from Cons.prems e obtain ts where ts: "cells h r = StampList ts" and rf: "r \<noteq> flat"
    by auto
  let ?h1 = "flatten_stamps flat rcv variance ts h"
  have same: "\<forall>e\<in>set es. cells ?h1 (snd (snd e)) = cells h (snd (snd e))"
    using Cons.prems by (simp add: flatten_stamps_cells)
  then have pre: "\<forall>e\<in>set es. snd (snd e) \<noteq> flat \<and> (\<exists>ts. cells ?h1 (snd (snd e)) = StampList ts)"
    using Cons.prems by simp
  from Cons.IH [OF pre] obtain h' where
    h': "flatten_entries flat es ?h1 = Ok () h'"
    "items_at h' flat = items_at ?h1 flat @ flatten (entries_value ?h1 es)"
    by blast
  have ev: "entries_value h (e # es) = (rcv, variance, ts) # entries_value ?h1 es"
    using entries_value_cong [OF same] e ts by (simp add: entries_value_def stamps_at_def)
  have "flatten_entries flat (e # es) h = Ok () h'"
    using h'(1) e ts by simp
  moreover have "items_at h' flat = items_at h flat @ flatten (entries_value h (e # es))"
    unfolding ev flatten_Cons h'(2) flatten_stamps_items by simp
  ultimately show ?case by blast
qed

lemma rough_groups_finished:
  "rough_groups fin cur prev rest = fin @ rough_groups [] cur prev rest"
proof (induction rest arbitrary: fin cur prev)
  case Nil
  then show ?case by simp
next
  case (Cons t rest)
  show ?case
    using Cons [of "fin @ [cur @ [prev]]" "[]" t] Cons [of "[cur @ [prev]]" "[]" t]
      Cons [of fin "cur @ [prev]" t]
    by simp
qed

lemma rough_loop_refines:
  assumes "groups_at h grps = gs @ [grp]" and "items_at h grp = cur @ [prev]"
    and "groups_ok h grps"
  shows "\<exists>h'. rough_loop grps grp rest h = Ok () h' \<and> groups_ok h' grps \<and>
              map (items_at h') (groups_at h' grps)
                = map (items_at h) gs @ rough_groups [] cur prev rest"
  using assms
proof (induction rest arbitrary: h grp gs cur prev)
  case Nil
  then show ?case by simp
next
  case (Cons t rest)
  have rv: "rev (items_at h grp) = prev # rev cur"
    using Cons.prems(2) by simp
  have ok: "grps < free h" "distinct (gs @ [grp])" "grps \<notin> set (gs @ [grp])"
    "\<forall>g\<in>set (gs @ [grp]). g < free h"
    using Cons.prems(1,3) by (simp_all add: groups_ok_def)
  show ?case
  proof (cases "item_ts t - item_ts prev > 2 / 1000")
    case True
    obtain g' h1 where al: "alloc (ItemList [t]) h = (g', h1)"
      by (cases "alloc (ItemList [t]) h")
    note a = alloc_props [OF al]
    let ?h2 = "put grps (GroupList (groups_at h1 grps @ [g'])) h1"
    have g1: "groups_at h1 grps = gs @ [grp]"
      using a(1,3) ok(1) Cons.prems(1) by (simp add: groups_at_def)
    have g2: "groups_at ?h2 grps = (gs @ [grp]) @ [g']"
      using g1 by (simp add: groups_at_put)
    have i2: "items_at ?h2 g' = [] @ [t]"
      using a(1,3) ok(1) by (simp add: items_at_put) (simp add: items_at_def)
    have old: "\<forall>g\<in>set (gs @ [grp]). items_at ?h2 g = items_at h g"
      using a(1,3) ok by (auto simp: items_at_put) (auto simp: items_at_def)
    have ok2: "groups_ok ?h2 grps"
      using g2 ok a(1,2) by (auto simp: groups_ok_def)
    from Cons.IH [OF g2 i2 ok2] obtain h' where
      h': "rough_loop grps g' rest ?h2 = Ok () h'" "groups_ok h' grps"
      "map (items_at h') (groups_at h' grps)
         = map (items_at ?h2) (gs @ [grp]) @ rough_groups [] [] t rest"
      by blast
    have "map (items_at ?h2) (gs @ [grp]) = map (items_at h) gs @ [cur @ [prev]]"
      using old Cons.prems(2) by simp
    with h' True rv al show ?thesis
      using rough_groups_finished [of "[cur @ [prev]]" "[]" t rest] by simp
  next
    case False
    let ?h1 = "put grp (ItemList (items_at h grp @ [t])) h"
    have gg: "grp \<noteq> grps" using ok(3) by auto
    have g1: "groups_at ?h1 grps = gs @ [grp]"
      using Cons.prems(1) gg by (simp add: groups_at_put)
    have i1: "items_at ?h1 grp = (cur @ [prev]) @ [t]"
      using Cons.prems(2) by (simp add: items_at_put)
    have ok1: "groups_ok ?h1 grps"
      using g1 ok by (simp add: groups_ok_def)
    have old: "map (items_at ?h1) gs = map (items_at h) gs"
      using ok(2) by (auto simp: items_at_put)
    from Cons.IH [OF g1 i1 ok1] old False rv show ?thesis
      by simp
  qed
qed

lemma nth_rev_append: "(rev others @ c # kept) ! length others = c"
  by (simp add: nth_append)

lemma delete_at_rev_append: "delete_at (length others) (rev others @ c # kept) = rev others @ kept"
  by (simp add: delete_at_def)

lemma form_loop_refines:
  assumes "grp \<noteq> cl" and "items_at h grp = rev todo @ kept" and "cells h cl = MemberList ms"
  shows "\<exists>h'. form_loop R lt grp cl (length todo) fs dn h
                 = Ok (fst (snd (form_cluster R lt todo ms fs dn kept)),
                       fst (snd (snd (form_cluster R lt todo ms fs dn kept)))) h'
              \<and> cells h' cl = MemberList (fst (form_cluster R lt todo ms fs dn kept))
              \<and> items_at h' grp = group_left (form_cluster R lt todo ms fs dn kept)
              \<and> free h' = free h
              \<and> (\<forall>a. a \<noteq> grp \<and> a \<noteq> cl \<longrightarrow> cells h' a = cells h a)"
  using assms
proof (induction todo arbitrary: h ms fs dn kept)
  case Nil
  then show ?case by (simp add: group_left_def)
next
  case (Cons c others)
  obtain rcv timestamp variance utc where c: "c = (rcv, timestamp, variance, utc)"
    by (cases c)
  have it: "items_at h grp ! length others = (rcv, timestamp, variance, utc)"
    using Cons.prems(2) c nth_rev_append [of others c kept] by simp
  have len: "length others < length (items_at h grp)"
    using Cons.prems(2) by simp
  have ma: "members_at h cl = ms"
    using Cons.prems(3) by (simp add: members_at_def)
  show ?case
  proof (cases "lt - timestamp > 2 / 1000")
    case True
    with it len c Cons.prems show ?thesis by (simp add: group_left_def)
  next
    case False
    obtain can_cluster is_distinct
      where chk: "check_candidate R rcv timestamp ms True = (can_cluster, is_distinct)"
      by (cases "check_candidate R rcv timestamp ms True")
    show ?thesis
    proof (cases can_cluster)
      case True
      let ?h1 = "put cl (MemberList (ms @ [(rcv, timestamp, variance)])) h"
      let ?h2 = "put grp (ItemList (delete_at (length others) (items_at ?h1 grp))) ?h1"
      have i2: "items_at ?h2 grp = rev others @ kept"
        using Cons.prems(1,2) delete_at_rev_append [of others c kept]
        by (simp add: items_at_put)
      have c2: "cells ?h2 cl = MemberList (ms @ [(rcv, timestamp, variance)])"
        using Cons.prems(1) by (simp add: cells_put)
      from Cons.IH [OF Cons.prems(1) i2 c2, of "min fs utc" "if is_distinct then Suc dn else dn"]
      obtain h' where h':
        "form_loop R lt grp cl (length others) (min fs utc) (if is_distinct then Suc dn else dn) ?h2
           = Ok (fst (snd (form_cluster R lt others (ms @ [(rcv, timestamp, variance)]) (min fs utc)
                             (if is_distinct then Suc dn else dn) kept)),
                 fst (snd (snd (form_cluster R lt others (ms @ [(rcv, timestamp, variance)])
                                  (min fs utc) (if is_distinct then Suc dn else dn) kept)))) h'"
        "cells h' cl = MemberList (fst (form_cluster R lt others (ms @ [(rcv, timestamp, variance)])
                                          (min fs utc) (if is_distinct then Suc dn else dn) kept))"
        "items_at h' grp = group_left (form_cluster R lt others (ms @ [(rcv, timestamp, variance)])
                                         (min fs utc) (if is_distinct then Suc dn else dn) kept)"
        "free h' = free ?h2"
        "\<forall>a. a \<noteq> grp \<and> a \<noteq> cl \<longrightarrow> cells h' a = cells ?h2 a"
        by blast
      from h'(5) have "\<forall>a. a \<noteq> grp \<and> a \<noteq> cl \<longrightarrow> cells h' a = cells h a"
        by (simp add: cells_put)
      with h'(1-4) it len ma c False chk True show ?thesis
        by (simp add: Let_def)
    next
      case nc: False
      have i1: "items_at h grp = rev others @ (c # kept)"
        using Cons.prems(2) by simp
      from Cons.IH [OF Cons.prems(1) i1 Cons.prems(3), of fs dn]
        it len ma c False chk nc
      show ?thesis by simp
    qed
  qed
qed

subsection \<open>Cluster engine on a heap (H5)\<close>

lemma clusters_value_cong:
  assumes "cells h' clusters = cells h clusters"
    and "\<forall>e\<in>set (clusters_at h clusters). cells h' (snd (snd e)) = cells h (snd (snd e))"
  shows "clusters_value h' clusters = clusters_value h clusters"
  using assms by (auto simp: clusters_value_def clusters_at_def members_at_def)

lemma seed_last:
  assumes "rev xs = seed # todo"
  shows "butlast xs = rev todo"
proof -
  have "xs = rev todo @ [seed]"
    using assms by (metis rev.simps(2) rev_rev_ident)
  then show ?thesis by simp
qed

lemma extract_pass_refines:
  assumes "clusters_ok h clusters G" and "grp \<in> G" and "rev (items_at h grp) = seed # todo"
  shows "\<exists>h'. extract_pass R m grp clusters seed h = Ok () h'
              \<and> clusters_ok h' clusters G
              \<and> items_at h' grp = group_left (seed_cluster R seed todo)
              \<and> clusters_value h' clusters
                  = emit_cluster m (seed_cluster R seed todo) (clusters_value h clusters)
              \<and> (\<forall>g\<in>G. g \<noteq> grp \<longrightarrow> cells h' g = cells h g)"
proof -
  obtain rcv timestamp variance utc where seed: "seed = (rcv, timestamp, variance, utc)"
    by (cases seed)
  from assms(1) obtain cs where ok:
    "clusters < free h" "clusters \<notin> G" "\<forall>g\<in>G. g < free h" "cells h clusters = ClusterList cs"
    "\<forall>e\<in>set cs. snd (snd e) < free h \<and> snd (snd e) \<notin> G \<and> snd (snd e) \<noteq> clusters"
    by (auto simp: clusters_ok_def)
  let ?h1 = "put grp (ItemList (butlast (items_at h grp))) h"
  obtain cl h2 where al: "alloc (MemberList [(rcv, timestamp, variance)]) ?h1 = (cl, h2)"
    by (cases "alloc (MemberList [(rcv, timestamp, variance)]) ?h1")
  note a = alloc_props [OF al]
  have cl: "cl = free h" using a(1) by simp
  have gl: "grp < free h" using ok(3) assms(2) by simp
  have ne: "grp \<noteq> cl" "clusters \<noteq> cl" "clusters \<noteq> grp"
    using gl cl ok(1,2) assms(2) by auto
  have i2: "items_at h2 grp = rev todo @ []"
    using a(3) ne(1) seed_last [OF assms(3)] by (simp add: items_at_def cells_put)
  have c2: "cells h2 cl = MemberList [(rcv, timestamp, variance)]"
    using a(3) by simp
  let ?fc = "form_cluster R timestamp todo [(rcv, timestamp, variance)] utc 1 []"
  have fc: "seed_cluster R seed todo = ?fc"
    by (simp add: seed_cluster_def seed)
  have ln: "length (items_at h2 grp) = length todo"
    using i2 by simp
  from form_loop_refines [OF ne(1) i2 c2, of R timestamp utc 1] obtain h3 where h3:
    "form_loop R timestamp grp cl (length todo) utc 1 h2
       = Ok (fst (snd ?fc), fst (snd (snd ?fc))) h3"
    "cells h3 cl = MemberList (fst ?fc)"
    "items_at h3 grp = group_left ?fc"
    "free h3 = free h2"
    "\<forall>a. a \<noteq> grp \<and> a \<noteq> cl \<longrightarrow> cells h3 a = cells h2 a"
    by blast
  have keep: "\<forall>a. a \<noteq> grp \<and> a \<noteq> cl \<longrightarrow> cells h3 a = cells h a"
    using h3(5) a(3) by (simp add: cells_put)
  have cc3: "cells h3 clusters = ClusterList cs"
    using keep ne ok(4) by simp
  have away: "\<forall>e\<in>set cs. snd (snd e) \<noteq> grp \<and> snd (snd e) \<noteq> cl
                 \<and> snd (snd e) \<noteq> clusters"
  proof
    fix e assume "e \<in> set cs"
    with ok(5) have "snd (snd e) < free h" "snd (snd e) \<notin> G" "snd (snd e) \<noteq> clusters"
      by auto
    with assms(2) cl show "snd (snd e) \<noteq> grp \<and> snd (snd e) \<noteq> cl \<and> snd (snd e) \<noteq> clusters"
      by auto
  qed
  have old: "\<forall>e\<in>set cs. cells h3 (snd (snd e)) = cells h (snd (snd e))"
    using keep away by simp
  have f3: "free h3 = Suc (free h)"
    using h3(4) a(2) by simp
  have others: "\<forall>g\<in>G. g \<noteq> grp \<longrightarrow> cells h3 g = cells h g"
    using keep ok(3) cl by auto
  obtain ms fs dn grp_left where fcv: "?fc = (ms, fs, dn, grp_left)"
    by (cases ?fc)
  show ?thesis
  proof (cases "m \<le> int dn")
    case False
    have "extract_pass R m grp clusters seed h = Ok () h3"
      using seed al ln h3(1) fcv False by (simp add: extract_pass_def Let_def)
    moreover have "clusters_ok h3 clusters G"
      using ok cc3 f3 by (auto simp: clusters_ok_def)
    moreover have "clusters_value h3 clusters = clusters_value h clusters"
      using clusters_value_cong [of h3 clusters h] cc3 ok(4) old
      by (simp add: clusters_at_def)
    then have "clusters_value h3 clusters
                 = emit_cluster m (seed_cluster R seed todo) (clusters_value h clusters)"
      using fc fcv False by (simp add: emit_cluster_def)
    ultimately show ?thesis
      using h3(3) fc others by auto
  next
    case True
    let ?h4 = "put cl (MemberList (rev (members_at h3 cl))) h3"
    let ?h5 = "put clusters (ClusterList (clusters_at ?h4 clusters @ [(dn, fs, cl)])) ?h4"
    have ca4: "clusters_at ?h4 clusters = cs"
      using cc3 ne(2) by (simp add: clusters_at_def cells_put)
    have m3: "members_at h3 cl = ms"
      using h3(2) fcv by (simp add: members_at_def)
    have c5: "cells ?h5 clusters = ClusterList (cs @ [(dn, fs, cl)])"
      using ca4 by (simp add: cells_put)
    have m5: "members_at ?h5 cl = rev ms"
      using m3 ne(2) by (simp add: members_at_def cells_put)
    have old5: "\<forall>e\<in>set cs. members_at ?h5 (snd (snd e)) = members_at h (snd (snd e))"
      using old away by (simp add: members_at_def cells_put)
    have "extract_pass R m grp clusters seed h = Ok () ?h5"
      using seed al ln h3(1) fcv True by (simp add: extract_pass_def Let_def)
    moreover have "clusters_ok ?h5 clusters G"
      using ok c5 f3 cl by (auto simp: clusters_ok_def)
    moreover have "clusters_value ?h5 clusters
                     = clusters_value h clusters @ [(dn, fs, rev ms)]"
      using c5 m5 old5 ok(4) by (auto simp: clusters_value_def clusters_at_def)
    then have "clusters_value ?h5 clusters
                 = emit_cluster m (seed_cluster R seed todo) (clusters_value h clusters)"
      using fc fcv True by (simp add: emit_cluster_def)
    moreover have "items_at ?h5 grp = group_left (seed_cluster R seed todo)"
      using h3(3) fc ne by (simp add: items_at_put)
    moreover have "\<forall>g\<in>G. g \<noteq> grp \<longrightarrow> cells ?h5 g = cells h g"
      using others ok(2,3) cl by (auto simp: cells_put)
    ultimately show ?thesis by blast
  qed
qed

subsection \<open>Cluster engine on a heap (H6)\<close>

lemma extract_heap_refines:
  assumes "clusters_ok h clusters G" and "grp \<in> G"
  shows "loop_value clusters (extract_heap R m grp clusters h)
           = extract_clusters R m (items_at h grp) (clusters_value h clusters)
       \<and> clusters_ok (heap_of (extract_heap R m grp clusters h)) clusters G
       \<and> (\<forall>g\<in>G. g \<noteq> grp \<longrightarrow> cells (heap_of (extract_heap R m grp clusters h)) g = cells h g)"
  using assms
proof (induction R m grp clusters h rule: extract_heap.induct)
  case (1 R m grp clusters h)
  show ?case
  proof (cases "m \<le> int (length (items_at h grp))")
    case False
    with 1(2) show ?thesis
      by (simp add: extract_heap.simps [of R m grp clusters h]
          extract_clusters.simps [of R m "items_at h grp"])
  next
    case True
    show ?thesis
    proof (cases "rev (items_at h grp)")
      case Nil
      with True 1(2) show ?thesis
        by (simp add: extract_heap.simps [of R m grp clusters h]
            extract_clusters.simps [of R m "[]"])
    next
      case (Cons seed todo)
      from extract_pass_refines [OF 1(2,3) Cons, of R m] obtain h' where h':
        "extract_pass R m grp clusters seed h = Ok () h'"
        "clusters_ok h' clusters G"
        "items_at h' grp = group_left (seed_cluster R seed todo)"
        "clusters_value h' clusters
           = emit_cluster m (seed_cluster R seed todo) (clusters_value h clusters)"
        "\<forall>g\<in>G. g \<noteq> grp \<longrightarrow> cells h' g = cells h g"
        by blast
      note ih = 1(1) [OF True Cons h'(1) h'(2) 1(3)]
      have eh: "extract_heap R m grp clusters h = extract_heap R m grp clusters h'"
        using True Cons h'(1) by (simp add: extract_heap.simps [of R m grp clusters h])
      have ec: "extract_clusters R m (items_at h grp) (clusters_value h clusters)
                  = extract_clusters R m (items_at h' grp) (clusters_value h' clusters)"
        using True Cons h'(3,4)
        by (simp add: extract_clusters.simps [of R m "items_at h grp"])
      from ih h'(5) show ?thesis
        unfolding eh ec by simp
    qed
  qed
qed

lemma cluster_groups_heap_refines:
  assumes "clusters_ok h clusters G" and "set gs \<subseteq> G" and "distinct gs"
  shows "loop_value clusters (cluster_groups_heap R m gs clusters h)
           = cluster_groups R m (map (items_at h) gs) (clusters_value h clusters)"
  using assms
proof (induction gs arbitrary: h)
  case Nil
  then show ?case by simp
next
  case (Cons g gs)
  have gG: "g \<in> G" using Cons.prems(2) by simp
  note r = extract_heap_refines [OF Cons.prems(1) gG, of R m]
  show ?case
  proof (cases "extract_heap R m g clusters h")
    case (Err e h')
    with r have "extract_clusters R m (items_at h g) (clusters_value h clusters) = Inl e"
      by (simp del: extract_clusters.simps extract_heap.simps)
    with Err show ?thesis
      by (simp del: extract_clusters.simps extract_heap.simps)
  next
    case (Ok u h')
    with r have v: "extract_clusters R m (items_at h g) (clusters_value h clusters)
                      = Inr (clusters_value h' clusters)"
      and ok': "clusters_ok h' clusters G"
      and keep: "\<forall>g'\<in>G. g' \<noteq> g \<longrightarrow> cells h' g' = cells h g'"
      by (simp_all del: extract_clusters.simps extract_heap.simps)
    have "\<forall>g'\<in>set gs. items_at h' g' = items_at h g'"
      using keep Cons.prems(2,3) by (auto simp: items_at_def)
    then have same: "map (items_at h') gs = map (items_at h) gs"
      by simp
    from Cons.IH [OF ok', unfolded same] Cons.prems(2,3) Ok v show ?thesis
      by (simp del: extract_clusters.simps extract_heap.simps)
  qed
qed

lemma cluster_timestamps_heap_refines:
  assumes "wf_component h0 c"
  shows "result_value (cluster_timestamps_heap R c m h0)
           = cluster_timestamps R (component_at h0 c) m"
proof -
  from assms obtain es where wf:
    "c < free h0" "cells h0 c = Component es"
    "\<forall>e\<in>set es. snd (snd e) < free h0 \<and> (\<exists>ts. cells h0 (snd (snd e)) = StampList ts)"
    by (auto simp: wf_component_def)
  obtain flat h1 where a1: "alloc (ItemList []) h0 = (flat, h1)"
    by (cases "alloc (ItemList []) h0")
  note p1 = alloc_props [OF a1]
  have c1: "cells h1 c = Component es"
    using p1(1,3) wf(1,2) by simp
  have e1: "\<forall>e\<in>set es. snd (snd e) \<noteq> flat \<and> (\<exists>ts. cells h1 (snd (snd e)) = StampList ts)"
    using p1(1,3) wf(3) by auto
  have "\<forall>e\<in>set es. cells h1 (snd (snd e)) = cells h0 (snd (snd e))"
    using p1(1,3) wf(3) by auto
  then have "entries_value h1 es = entries_value h0 es"
    by (rule entries_value_cong)
  then have ev: "entries_value h1 es = component_at h0 c"
    using wf(2) by (simp add: component_at_def)
  from flatten_entries_refines [OF e1] obtain h2 where h2:
    "flatten_entries flat es h1 = Ok () h2"
    "items_at h2 flat = items_at h1 flat @ flatten (entries_value h1 es)"
    by blast
  have i2: "items_at h2 flat = flatten (component_at h0 c)"
    using h2(2) ev p1(3) by (simp add: items_at_def)
  let ?sorted = "sort_key item_ts (flatten (component_at h0 c))"
  let ?h3 = "put flat (ItemList (sort_key item_ts (items_at h2 flat))) h2"
  have i3: "items_at ?h3 flat = ?sorted"
    using i2 by (simp add: items_at_put)
  show ?thesis
  proof (cases ?sorted)
    case Nil
    with a1 c1 h2(1) i3 show ?thesis
      by (simp add: cluster_timestamps_heap_def cluster_timestamps_def Let_def)
  next
    case (Cons t0 rest)
    obtain grp h4 where a4: "alloc (ItemList [t0]) ?h3 = (grp, h4)"
      by (cases "alloc (ItemList [t0]) ?h3")
    obtain grps h5 where a5: "alloc (GroupList [grp]) h4 = (grps, h5)"
      by (cases "alloc (GroupList [grp]) h4")
    obtain tail h6 where a6: "alloc (ItemList rest) h5 = (tail, h6)"
      by (cases "alloc (ItemList rest) h5")
    note p4 = alloc_props [OF a4] and p5 = alloc_props [OF a5] and p6 = alloc_props [OF a6]
    have refs: "grps = Suc grp" "tail = Suc grps" "free h6 = Suc tail"
      using p4(1,2) p5(1,2) p6(1,2) by simp_all
    have g6: "groups_at h6 grps = [] @ [grp]"
      using p5(3) p6(3) refs by (simp add: groups_at_def)
    have i6: "items_at h6 grp = [] @ [t0]"
      using p4(3) p5(3) p6(3) refs by (simp add: items_at_def)
    have t6: "items_at h6 tail = rest"
      using p6(3) by (simp add: items_at_def)
    have ok6: "groups_ok h6 grps"
      using g6 refs by (simp add: groups_ok_def)
    from rough_loop_refines [OF g6 i6 ok6, of rest] obtain h7 where h7:
      "rough_loop grps grp rest h6 = Ok () h7" "groups_ok h7 grps"
      "map (items_at h7) (groups_at h7 grps) = rough_groups [] [] t0 rest"
      by auto
    obtain clusters h8 where a8: "alloc (ClusterList []) h7 = (clusters, h8)"
      by (cases "alloc (ClusterList []) h7")
    note p8 = alloc_props [OF a8]
    let ?G = "set (groups_at h7 grps)"
    have ok7: "grps < free h7" "distinct (groups_at h7 grps)" "\<forall>g\<in>?G. g < free h7"
      using h7(2) by (simp_all add: groups_ok_def)
    have g8: "groups_at h8 grps = groups_at h7 grps"
      using p8(1,3) ok7(1) by (simp add: groups_at_def)
    have i8: "map (items_at h8) (groups_at h7 grps) = map (items_at h7) (groups_at h7 grps)"
      using p8(1,3) ok7(3) by (auto simp: items_at_def)
    have ok8: "clusters_ok h8 clusters ?G"
      using p8 ok7(3) by (auto simp: clusters_ok_def)
    have v8: "clusters_value h8 clusters = []"
      using p8(3) by (simp add: clusters_value_def clusters_at_def)
    from cluster_groups_heap_refines [OF ok8 subset_refl ok7(2), of R m]
    have cg: "loop_value clusters (cluster_groups_heap R m (groups_at h8 grps) clusters h8)
                = cluster_groups R m (rough_groups [] [] t0 rest) []"
      by (simp add: g8 i8 h7(3) v8)
    have "result_value (cluster_timestamps_heap R c m h0)
            = loop_value clusters (cluster_groups_heap R m (groups_at h8 grps) clusters h8)"
      using a1 c1 h2(1) i3 Cons a4 a5 a6 t6 h7(1) a8
      by (cases "cluster_groups_heap R m (groups_at h8 grps) clusters h8")
         (simp_all add: cluster_timestamps_heap_def Let_def)
    with cg Cons show ?thesis
      by (simp add: cluster_timestamps_def)
  qed
qed

subsection \<open>Purity of the cluster engine\<close>

text \<open>
  C8. \<open>_cluster_timestamps\<close> changes no object that exists when it is called: every
  object of the heap before the call, among them the component dictionary and the
  lists of timestamps it refers to, is the same after the call, whether the call
  returns or raises; the component read after the call is the component read before
  it. The clusters returned are a function of the component's contents alone (the
  function \<open>cluster_timestamps\<close> of the first embedding), so a second call on the same
  component returns equal clusters.
\<close>
theorem cluster_engine_pure:
  assumes "wf_component h c"
  shows "(\<forall>a<free h. cells (heap_of (cluster_timestamps_heap R c m h)) a = cells h a)
       \<and> component_at (heap_of (cluster_timestamps_heap R c m h)) c = component_at h c
       \<and> result_value (cluster_timestamps_heap R c m h)
           = cluster_timestamps R (component_at h c) m
       \<and> result_value (cluster_timestamps_heap R c m
                          (heap_of (cluster_timestamps_heap R c m h)))
           = result_value (cluster_timestamps_heap R c m h)"
proof -
  let ?h' = "heap_of (cluster_timestamps_heap R c m h)"
  from cluster_timestamps_heap_modifies [of h R c m]
  have fr: "free h \<le> free ?h'" and same: "\<forall>a<free h. cells ?h' a = cells h a"
    by (simp_all add: modifies_def)
  from assms obtain es where wf:
    "c < free h" "cells h c = Component es"
    "\<forall>e\<in>set es. snd (snd e) < free h \<and> (\<exists>ts. cells h (snd (snd e)) = StampList ts)"
    by (auto simp: wf_component_def)
  have c': "cells ?h' c = Component es"
    using same wf(1,2) by simp
  have e': "\<forall>e\<in>set es. cells ?h' (snd (snd e)) = cells h (snd (snd e))"
    using same wf(3) by simp
  have comp: "component_at ?h' c = component_at h c"
    using entries_value_cong [OF e'] c' wf(2) by (simp add: component_at_def)
  have wf': "wf_component ?h' c"
    using wf c' e' fr by (auto simp: wf_component_def)
  have r1: "result_value (cluster_timestamps_heap R c m h)
              = cluster_timestamps R (component_at h c) m"
    using assms by (rule cluster_timestamps_heap_refines)
  have r2: "result_value (cluster_timestamps_heap R c m ?h')
              = cluster_timestamps R (component_at ?h' c) m"
    using wf' by (rule cluster_timestamps_heap_refines)
  from same comp r1 r2 show ?thesis by simp
qed

lemma heap3_component: "component_at heap3 3 = component3"
  by (simp add: component_at_def entries_value_def stamps_at_def heap3_def component3_def)

lemma heap3_wf: "wf_component heap3 3"
  by (simp add: wf_component_def heap3_def)

theorem cluster_engine_pure_witness:
  "cells (heap_of (cluster_timestamps_heap R5km 3 3 heap3)) 0 = cells heap3 0
   \<and> cells (heap_of (cluster_timestamps_heap R5km 3 3 heap3)) 3 = cells heap3 3
   \<and> component_at (heap_of (cluster_timestamps_heap R5km 3 3 heap3)) 3 = component3
   \<and> result_value (cluster_timestamps_heap R5km 3 3 heap3) = Inr [(3, 100, members3)]
   \<and> result_value (cluster_timestamps_heap R5km 3 3
                      (heap_of (cluster_timestamps_heap R5km 3 3 heap3)))
       = Inr [(3, 100, members3)]"
proof -
  note t = cluster_engine_pure [OF heap3_wf, of R5km 3]
  have f: "(0::nat) < free heap3" "(3::nat) < free heap3"
    by (simp_all add: heap3_def)
  from t f have "cells (heap_of (cluster_timestamps_heap R5km 3 3 heap3)) 0 = cells heap3 0"
    "cells (heap_of (cluster_timestamps_heap R5km 3 3 heap3)) 3 = cells heap3 3"
    by blast+
  moreover from t have "component_at (heap_of (cluster_timestamps_heap R5km 3 3 heap3)) 3
      = component3"
    "result_value (cluster_timestamps_heap R5km 3 3 heap3) = Inr [(3, 100, members3)]"
    "result_value (cluster_timestamps_heap R5km 3 3
                      (heap_of (cluster_timestamps_heap R5km 3 3 heap3)))
       = Inr [(3, 100, members3)]"
    by (simp_all add: heap3_component cluster_timestamps_component3)
  ultimately show ?thesis by blast
qed

end
